theory Spec2Isabelle
  imports Complex_Main
begin

section \<open>Errors as values\<close>

text \<open>
  Every exception the search-light code or the array library can raise is a value of
  \<open>error\<close>; a fallible computation returns \<open>error + 'a\<close> with \<open>Inl\<close> the exception.
  \<open>ValueError\<close> carries the message of the raise statement.
\<close>

datatype error =
    ValueError string
  | TypeError
  | AttributeError
  | IndexError
  | UnboundLocalError
  | ModelError nat

definition ebind :: "error + 'a \<Rightarrow> ('a \<Rightarrow> error + 'b) \<Rightarrow> error + 'b" where
  "ebind m f = (case m of Inl e \<Rightarrow> Inl e | Inr x \<Rightarrow> f x)"

section \<open>The dense array type\<close>

text \<open>
  The arrays and the operations on them are the array library's (numpy), written here
  as the library documents them. An array is its shape, its numeric kind (64-bit
  integer or 64-bit float) and its elements in row-major order. A float element is
  modelled by the rational it denotes, an integer element by the integer; infinities
  and NaN are not modelled.
\<close>

datatype dtype = DInt | DFloat

record ndarray =
  shape :: "nat list"
  dtype :: dtype
  data :: "rat list"

definition valid :: "ndarray \<Rightarrow> bool" where
  "valid a = (length (data a) = prod_list (shape a))"

definition ndim :: "ndarray \<Rightarrow> nat" where
  "ndim a = length (shape a)"

text \<open>
  Conversion of an element on assignment. A float has 53 bits of precision: an integer of
  magnitude \<open>a\<close> converts to the nearest multiple of \<open>float64_spacing a\<close> (1 below \<open>2^53\<close>,
  doubling with every further bit), ties going to the even multiple. A float converts
  to an integer by truncation toward zero; outside the 64-bit range the conversion is
  the platform's, written here as on x86-64, where it gives \<open>-2^63\<close>.
\<close>

function float64_spacing :: "int \<Rightarrow> int" where
  "float64_spacing a = (if a < 2 ^ 53 then 1 else 2 * float64_spacing (a div 2))"
  by pat_completeness auto
termination
  by (relation "measure nat") auto

declare float64_spacing.simps [simp del]

definition round_float64 :: "int \<Rightarrow> int" where
  "round_float64 i =
     (let a = \<bar>i\<bar>; u = float64_spacing a; q = a div u; r = a mod u;
          q' = (if 2 * r < u then q else if u < 2 * r then q + 1
                else if even q then q else q + 1)
      in sgn i * (q' * u))"

definition truncate_toward_zero :: "rat \<Rightarrow> int" where
  "truncate_toward_zero v = (if 0 \<le> v then \<lfloor>v\<rfloor> else \<lceil>v\<rceil>)"

definition to_int64 :: "int \<Rightarrow> int" where
  "to_int64 t = (if - (2 ^ 63) \<le> t \<and> t < 2 ^ 63 then t else - (2 ^ 63))"

definition astype :: "dtype \<Rightarrow> dtype \<Rightarrow> rat \<Rightarrow> rat" where
  "astype src dst v =
     (case (src, dst) of
        (DInt, DFloat) \<Rightarrow> of_int (round_float64 (truncate_toward_zero v))
      | (DFloat, DInt) \<Rightarrow> of_int (to_int64 (truncate_toward_zero v))
      | _ \<Rightarrow> v)"

definition np_zeros :: "nat list \<Rightarrow> dtype \<Rightarrow> ndarray" where
  "np_zeros shp dt = \<lparr>shape = shp, dtype = dt, data = replicate (prod_list shp) 0\<rparr>"

text \<open>\<open>a[..., ii]\<close>: index the last axis.\<close>

definition index_last :: "ndarray \<Rightarrow> nat \<Rightarrow> error + ndarray" where
  "index_last a ii =
     (case rev (shape a) of
        [] \<Rightarrow> Inl IndexError
      | s # _ \<Rightarrow>
          if ii < s
          then Inr \<lparr>shape = butlast (shape a), dtype = dtype a,
                    data = map (\<lambda>p. data a ! (p * s + ii)) [0..<prod_list (butlast (shape a))]\<rparr>
          else Inl IndexError)"

text \<open>\<open>a[..., st:st+z]\<close>: a contiguous range of the last axis.\<close>

definition slice_last :: "ndarray \<Rightarrow> nat \<Rightarrow> nat \<Rightarrow> ndarray" where
  "slice_last a st z =
     \<lparr>shape = butlast (shape a) @ [z], dtype = dtype a,
      data = map (\<lambda>q. data a ! ((q div z) * last (shape a) + st + q mod z))
                 [0..<prod_list (butlast (shape a)) * z]\<rparr>"

text \<open>
  \<open>np.array_split\<close>: \<open>k\<close> consecutive sections of a length \<open>l\<close>, the first \<open>l mod k\<close> of
  size \<open>l div k + 1\<close> and the rest of size \<open>l div k\<close>; each section is (start, size).
\<close>

definition section_sizes :: "nat \<Rightarrow> nat \<Rightarrow> nat list" where
  "section_sizes l k = replicate (l mod k) (l div k + 1) @ replicate (k - l mod k) (l div k)"

fun sections_from :: "nat \<Rightarrow> nat list \<Rightarrow> (nat \<times> nat) list" where
  "sections_from st [] = []"
| "sections_from st (z # zs) = (st, z) # sections_from (st + z) zs"

definition sections :: "nat \<Rightarrow> nat \<Rightarrow> (nat \<times> nat) list" where
  "sections l k = sections_from 0 (section_sizes l k)"

definition array_split_list :: "'a list \<Rightarrow> nat \<Rightarrow> error + 'a list list" where
  "array_split_list xs k =
     (if k = 0 then Inl (ValueError ''number sections must be larger than 0.'')
      else Inr (map (\<lambda>(st, z). take z (drop st xs)) (sections (length xs) k)))"

definition array_split_last :: "ndarray \<Rightarrow> nat \<Rightarrow> error + ndarray list" where
  "array_split_last a k =
     (if shape a = [] then Inl IndexError
      else if k = 0 then Inl (ValueError ''number sections must be larger than 0.'')
      else Inr (map (\<lambda>(st, z). slice_last a st z) (sections (last (shape a)) k)))"

text \<open>
  \<open>np.concatenate(arrs, axis)\<close>: the arrays agree in rank and in every dimension but
  \<open>axis\<close>; the result is float as soon as one array is, and the elements of every
  array are converted to the kind of the result.
\<close>

definition np_concatenate :: "ndarray list \<Rightarrow> nat \<Rightarrow> error + ndarray" where
  "np_concatenate arrs axis =
     (case arrs of
        [] \<Rightarrow> Inl (ValueError ''need at least one array to concatenate'')
      | a # rest \<Rightarrow>
          if list_ex (\<lambda>b. ndim b \<noteq> ndim a) rest
          then Inl (ValueError ''all the input arrays must have same number of dimensions'')
          else if ndim a \<le> axis then Inl (ValueError ''axis is out of bounds'')
          else if list_ex (\<lambda>b. take axis (shape b) \<noteq> take axis (shape a)
                   \<or> drop (Suc axis) (shape b) \<noteq> drop (Suc axis) (shape a)) rest
          then Inl (ValueError ''all the input array dimensions except for the concatenation axis must match exactly'')
          else Inr \<lparr>shape = take axis (shape a) @ [sum_list (map (\<lambda>b. shape b ! axis) arrs)]
                             @ drop (Suc axis) (shape a),
                    dtype = (if list_ex (\<lambda>b. dtype b = DFloat) arrs then DFloat else DInt),
                    data = concat (map (\<lambda>outer. concat (map (\<lambda>b.
                               map (astype (dtype b)
                                      (if list_ex (\<lambda>b. dtype b = DFloat) arrs then DFloat else DInt))
                                 (take (prod_list (drop axis (shape b)))
                                    (drop (outer * prod_list (drop axis (shape b))) (data b)))) arrs))
                             [0..<prod_list (take axis (shape a))])\<rparr>)"

text \<open>
  Assignment broadcasts the value to the shape of the assigned region: shapes are
  aligned from the right, a value dimension equals the region's or is 1, and extra
  leading value dimensions are 1. Both shapes are given reversed.
\<close>

fun broadcastable :: "nat list \<Rightarrow> nat list \<Rightarrow> bool" where
  "broadcastable [] ds = True"
| "broadcastable (v # vs) [] = (v = 1 \<and> broadcastable vs [])"
| "broadcastable (v # vs) (d # ds) = ((v = d \<or> v = 1) \<and> broadcastable vs ds)"

fun bc_index :: "nat list \<Rightarrow> nat list \<Rightarrow> nat \<Rightarrow> nat" where
  "bc_index (v # vs) (d # ds) q = (if v = 1 then 0 else q mod d) + v * bc_index vs ds (q div d)"
| "bc_index vs ds q = 0"

definition broadcast_to :: "nat list \<Rightarrow> ndarray \<Rightarrow> error + rat list" where
  "broadcast_to region v =
     (if broadcastable (rev (shape v)) (rev region)
      then Inr (map (\<lambda>q. data v ! bc_index (rev (shape v)) (rev region) q) [0..<prod_list region])
      else Inl (ValueError ''could not broadcast input array''))"

text \<open>\<open>a[ii, ...] = v\<close>\<close>

definition setitem_0 :: "ndarray \<Rightarrow> nat \<Rightarrow> ndarray \<Rightarrow> error + ndarray" where
  "setitem_0 a ii v =
     (case shape a of
        [] \<Rightarrow> Inl IndexError
      | d0 # rs \<Rightarrow>
          if d0 \<le> ii then Inl IndexError
          else ebind (broadcast_to rs v) (\<lambda>vals.
            Inr (a\<lparr>data := map (\<lambda>q. if q div prod_list rs = ii
                                      then astype (dtype v) (dtype a) (vals ! (q mod prod_list rs))
                                      else data a ! q) [0..<length (data a)]\<rparr>)))"

text \<open>\<open>a[ii, jj, ...] = v\<close>\<close>

definition setitem_0_1 :: "ndarray \<Rightarrow> nat \<Rightarrow> nat \<Rightarrow> ndarray \<Rightarrow> error + ndarray" where
  "setitem_0_1 a ii jj v =
     (case shape a of
        d0 # d1 # rs \<Rightarrow>
          if d0 \<le> ii \<or> d1 \<le> jj then Inl IndexError
          else ebind (broadcast_to rs v) (\<lambda>vals.
            Inr (a\<lparr>data := map (\<lambda>q. if q div prod_list rs = ii * d1 + jj
                                      then astype (dtype v) (dtype a) (vals ! (q mod prod_list rs))
                                      else data a ! q) [0..<length (data a)]\<rparr>))
      | _ \<Rightarrow> Inl IndexError)"

text \<open>\<open>a[:, ii, ...] = v\<close>\<close>

definition setitem_1 :: "ndarray \<Rightarrow> nat \<Rightarrow> ndarray \<Rightarrow> error + ndarray" where
  "setitem_1 a ii v =
     (case shape a of
        d0 # d1 # ts \<Rightarrow>
          if d1 \<le> ii then Inl IndexError
          else ebind (broadcast_to (d0 # ts) v) (\<lambda>vals.
            Inr (a\<lparr>data := map (\<lambda>q. if (q div prod_list ts) mod d1 = ii
                                      then astype (dtype v) (dtype a)
                                             (vals ! ((q div (d1 * prod_list ts)) * prod_list ts
                                                      + q mod prod_list ts))
                                      else data a ! q) [0..<length (data a)]\<rparr>))
      | _ \<Rightarrow> Inl IndexError)"

text \<open>
  \<open>np.transpose(a, [1, 0, 2])\<close>, \<open>np.reshape\<close> and the transpose \<open>.T\<close>. The code takes
  \<open>.T\<close> of the result of a reshape to two dimensions only, so \<open>matrix_T\<close> is written for
  matrices; no other rank reaches it.
\<close>

definition transpose_102 :: "ndarray \<Rightarrow> error + ndarray" where
  "transpose_102 a =
     (case shape a of
        [d0, d1, d2] \<Rightarrow>
          Inr \<lparr>shape = [d1, d0, d2], dtype = dtype a,
               data = map (\<lambda>q. data a ! ((((q div d2) mod d0) * d1 + (q div d2) div d0) * d2 + q mod d2))
                          [0..<d1 * d0 * d2]\<rparr>
      | _ \<Rightarrow> Inl (ValueError ''axes do not match array''))"

definition np_reshape :: "ndarray \<Rightarrow> nat list \<Rightarrow> error + ndarray" where
  "np_reshape a shp =
     (if prod_list shp = length (data a) then Inr (a\<lparr>shape := shp\<rparr>)
      else Inl (ValueError ''cannot reshape array''))"

definition matrix_T :: "ndarray \<Rightarrow> error + ndarray" where
  "matrix_T a =
     (case shape a of
        [r, c] \<Rightarrow>
          Inr \<lparr>shape = [c, r], dtype = dtype a,
               data = map (\<lambda>q. data a ! ((q mod r) * c + q div r)) [0..<c * r]\<rparr>
      | _ \<Rightarrow> Inl (ValueError ''not a matrix''))"

section \<open>The external collaborators\<close>

text \<open>
  The base model is opaque: the code only asks whether an object has an attribute,
  clones it, and calls \<open>fit\<close>, \<open>score\<close> and the apply methods by name. These operations
  are the fields of \<open>model_api\<close>; \<open>'e\<close> is the type of the objects the code handles. A
  model call may raise any exception. \<open>est_fit\<close> returns the object as \<open>fit\<close> leaves it.
  A score is an array (a numpy scalar has shape \<open>[]\<close>). \<open>n_cores\<close> is the number of workers
  of the machine, read by the task runner.

  The array library looks into the objects it is given: \<open>sequence_items\<close> gives the items
  of an object that implements the sequence protocol (\<open>len\<close> and indexing, as a fitted
  scikit-learn ensemble does over its sub-estimators) and \<open>None\<close> for any other object;
  \<open>object_array\<close> is the array holding the given objects, as an object.
\<close>

record 'e model_api =
  hasattr :: "'e \<Rightarrow> string \<Rightarrow> bool"
  clone :: "'e \<Rightarrow> 'e"
  est_fit :: "'e \<Rightarrow> ndarray \<Rightarrow> rat list \<Rightarrow> error + 'e"
  est_call :: "'e \<Rightarrow> string \<Rightarrow> ndarray \<Rightarrow> error + ndarray"
  est_score :: "'e \<Rightarrow> ndarray \<Rightarrow> rat list \<Rightarrow> error + ndarray"
  sequence_items :: "'e \<Rightarrow> 'e list option"
  object_array :: "'e list \<Rightarrow> 'e"
  n_cores :: nat

text \<open>\<open>getattr(est, method)\<close> raises AttributeError exactly when \<open>hasattr\<close> is false.\<close>

definition py_getattr :: "'e model_api \<Rightarrow> 'e \<Rightarrow> string \<Rightarrow> error + (ndarray \<Rightarrow> error + ndarray)" where
  "py_getattr api est method =
     (if hasattr api est method then Inr (est_call api est method) else Inl AttributeError)"

definition getattr_fit :: "'e model_api \<Rightarrow> 'e \<Rightarrow> error + (ndarray \<Rightarrow> rat list \<Rightarrow> error + 'e)" where
  "getattr_fit api est =
     (if hasattr api est ''fit'' then Inr (est_fit api est) else Inl AttributeError)"

definition getattr_score :: "'e model_api \<Rightarrow> 'e \<Rightarrow> error + (ndarray \<Rightarrow> rat list \<Rightarrow> error + ndarray)" where
  "getattr_score api est =
     (if hasattr api est ''score'' then Inr (est_score api est) else Inl AttributeError)"

text \<open>
  \<open>np.concatenate(chunks, 0)\<close> on lists of objects, as \<open>fit\<close> calls it. Each list becomes
  an array of objects. The library unpacks objects that are sequences: when every
  object of a list is a sequence of one common length, the array gets a further
  dimension of that length and holds the items, and so on for the items (an array has
  at most 32 dimensions); otherwise the array is one-dimensional and holds the objects
  themselves (so for sequences of different lengths, as the library did when the code
  was written; later versions refuse them). \<open>object_dims\<close> gives the further dimensions. The arrays must agree in
  them to be concatenated. The result is given as the list of its entries along the
  first axis: the objects themselves, or for an unpacked array its sub-arrays.
\<close>

definition items_of :: "'e model_api \<Rightarrow> 'e \<Rightarrow> 'e list" where
  "items_of api e = (case sequence_items api e of None \<Rightarrow> [] | Some xs \<Rightarrow> xs)"

fun object_dims :: "'e model_api \<Rightarrow> nat \<Rightarrow> 'e list \<Rightarrow> nat list" where
  "object_dims api 0 objs = []"
| "object_dims api (Suc d) objs =
     (case objs of
        [] \<Rightarrow> []
      | e # _ \<Rightarrow>
          if list_all (\<lambda>x. case sequence_items api x of
                              None \<Rightarrow> False
                            | Some xs \<Rightarrow> length xs = length (items_of api e)) objs
          then length (items_of api e) # object_dims api d (concat (map (items_of api) objs))
          else [])"

fun as_entry :: "'e model_api \<Rightarrow> nat list \<Rightarrow> 'e \<Rightarrow> 'e" where
  "as_entry api [] e = e"
| "as_entry api (l # dims) e = object_array api (map (as_entry api dims) (items_of api e))"

definition asarray_objects :: "'e model_api \<Rightarrow> 'e list \<Rightarrow> 'e list" where
  "asarray_objects api objs = map (as_entry api (object_dims api 31 objs)) objs"

definition concatenate_objects :: "'e model_api \<Rightarrow> 'e list list \<Rightarrow> error + 'e list" where
  "concatenate_objects api chunks =
     (case chunks of
        [] \<Rightarrow> Inl (ValueError ''need at least one array to concatenate'')
      | c # cs \<Rightarrow>
          if list_ex (\<lambda>b. length (object_dims api 31 b) \<noteq> length (object_dims api 31 c)) cs
          then Inl (ValueError ''all the input arrays must have same number of dimensions'')
          else if list_ex (\<lambda>b. object_dims api 31 b \<noteq> object_dims api 31 c) cs
          then Inl (ValueError ''all the input array dimensions except for the concatenation axis must match exactly'')
          else Inr (concat (map (asarray_objects api) chunks)))"

text \<open>
  Modelled from the spec: \<open>parallel_func\<close> (mne/parallel.py) is not among the sources.
  The task runner it returns runs the calls it is given and returns their results in
  input order; a failing call fails the whole run. \<open>parallel\<close> is that runner on the
  list of the calls' outcomes: the results in order, or the first failure.
\<close>

fun parallel :: "(error + 'a) list \<Rightarrow> error + 'a list" where
  "parallel [] = Inr []"
| "parallel (r # rs) = ebind r (\<lambda>x. ebind (parallel rs) (\<lambda>xs. Inr (x # xs)))"

text \<open>
  Modelled from the spec: the worker count \<open>parallel_func\<close> returns with the runner. The
  task runner resolves it: a negative \<open>n_jobs\<close> means all available workers, any other
  value is the count itself.
\<close>

definition parallel_func :: "'e model_api \<Rightarrow> int \<Rightarrow> nat" where
  "parallel_func api n_jobs = (if n_jobs < 0 then n_cores api else nat n_jobs)"

section \<open>SearchLight\<close>

text \<open>
  The object's attributes. \<open>estimators_attr\<close> is the attribute \<open>estimators_\<close>, absent
  (\<open>None\<close>) until \<open>fit\<close> sets it. \<open>n_jobs\<close> is an integer by its type, so the check of
  the constructor always passes.
\<close>

record 'e SearchLight =
  base_estimator :: 'e
  n_jobs :: int
  estimators_attr :: "'e list option"

definition SearchLight_init :: "'e \<Rightarrow> int \<Rightarrow> 'e SearchLight" where
  "SearchLight_init base n = \<lparr>base_estimator = base, n_jobs = n, estimators_attr = None\<rparr>"

definition get_estimators :: "'e SearchLight \<Rightarrow> error + 'e list" where
  "get_estimators self = (case estimators_attr self of None \<Rightarrow> Inl AttributeError | Some es \<Rightarrow> Inr es)"

definition check_ndim :: "ndarray \<Rightarrow> error + unit" where
  "check_ndim X = (if ndim X = 3 then Inr () else Inl (ValueError ''X must have at least 3 dimensions.''))"

definition check_Xy :: "ndarray \<Rightarrow> rat list option \<Rightarrow> error + unit" where
  "check_Xy X y =
     (case y of
        None \<Rightarrow> check_ndim X
      | Some yv \<Rightarrow>
          (case shape X of
             [] \<Rightarrow> Inl TypeError
           | len_X # _ \<Rightarrow>
               if len_X = length yv \<and> 1 \<le> length yv then check_ndim X
               else Inl (ValueError ''X and y must have the same length.'')))"

text \<open>
  \<open>_check_method\<close>: the ValueError of its second test is built and dropped (the
  statement has no \<open>raise\<close>), so the function returns the method in every case.
\<close>

definition check_method :: "'e model_api \<Rightarrow> 'e \<Rightarrow> string \<Rightarrow> string" where
  "check_method api estimator method =
     (let method = (if method = ''transform'' \<and> \<not> hasattr api estimator ''transform''
                    then ''predict'' else method);
          dropped = (if \<not> hasattr api estimator method
                     then Some (ValueError ''base_estimator does not have the method.'') else None)
      in method)"

fun sl_fit_loop :: "'e model_api \<Rightarrow> 'e \<Rightarrow> ndarray \<Rightarrow> rat list \<Rightarrow> nat list \<Rightarrow> error + 'e list" where
  "sl_fit_loop api estimator X y [] = Inr []"
| "sl_fit_loop api estimator X y (ii # iis) =
     ebind (getattr_fit api (clone api estimator)) (\<lambda>fit.
     ebind (index_last X ii) (\<lambda>Xi.
     ebind (fit Xi y) (\<lambda>est.
     ebind (sl_fit_loop api estimator X y iis) (\<lambda>ests. Inr (est # ests)))))"

definition sl_fit :: "'e model_api \<Rightarrow> 'e \<Rightarrow> ndarray \<Rightarrow> rat list \<Rightarrow> error + 'e list" where
  "sl_fit api estimator X y =
     (if shape X = [] then Inl IndexError
      else sl_fit_loop api estimator X y [0..<last (shape X)])"

definition sl_init_pred :: "ndarray \<Rightarrow> ndarray \<Rightarrow> error + ndarray" where
  "sl_init_pred y_pred X =
     (case shape X of
        [n_sample, n_chan, n_iter] \<Rightarrow>
          if 1 < ndim y_pred
          then Inr (np_zeros ([n_sample, n_iter] @ tl (shape y_pred)) DInt)
          else Inr (np_zeros [n_sample, n_iter] DFloat)
      | _ \<Rightarrow> Inl (ValueError ''unpack''))"

fun sl_transform_loop ::
  "'e model_api \<Rightarrow> ndarray \<Rightarrow> string \<Rightarrow> ndarray option \<Rightarrow> (nat \<times> 'e) list \<Rightarrow> error + ndarray option" where
  "sl_transform_loop api X method y_pred [] = Inr y_pred"
| "sl_transform_loop api X method y_pred ((ii, est) # rest) =
     ebind (py_getattr api est method) (\<lambda>transform.
     ebind (index_last X ii) (\<lambda>Xi.
     ebind (transform Xi) (\<lambda>y.
     ebind (if ii = 0 then ebind (sl_init_pred y X) (\<lambda>z. Inr (Some z)) else Inr y_pred) (\<lambda>y_pred.
     ebind (case y_pred of None \<Rightarrow> Inl UnboundLocalError | Some yp \<Rightarrow> setitem_1 yp ii y) (\<lambda>yp.
     sl_transform_loop api X method (Some yp) rest)))))"

definition sl_transform :: "'e model_api \<Rightarrow> 'e list \<Rightarrow> ndarray \<Rightarrow> string \<Rightarrow> error + ndarray" where
  "sl_transform api estimators X method =
     (case shape X of
        [n_sample, n_chan, n_iter] \<Rightarrow>
          ebind (sl_transform_loop api X method None (enumerate 0 estimators)) (\<lambda>y_pred.
            case y_pred of None \<Rightarrow> Inl UnboundLocalError | Some yp \<Rightarrow> Inr yp)
      | _ \<Rightarrow> Inl (ValueError ''unpack''))"

text \<open>
  \<open>_sl_score\<close>. The allocation at the first score has the shape
  \<open>np.r_[n_iter, _score.shape]\<close>, that is \<open>n_iter\<close> followed by the score's shape, and the
  second argument of \<open>np.zeros\<close> is the numeric kind: integer. (For a scalar score
  \<open>np.r_\<close> yields the dimension as a float, which the array library of the code's time
  accepts as a dimension.)
\<close>

definition sl_score_init :: "ndarray \<Rightarrow> nat \<Rightarrow> ndarray" where
  "sl_score_init s n_iter = np_zeros (n_iter # shape s) DInt"

fun sl_score_loop ::
  "'e model_api \<Rightarrow> ndarray \<Rightarrow> rat list \<Rightarrow> nat \<Rightarrow> ndarray option \<Rightarrow> (nat \<times> 'e) list \<Rightarrow> error + ndarray option" where
  "sl_score_loop api X y n_iter score [] = Inr score"
| "sl_score_loop api X y n_iter score ((ii, est) # rest) =
     ebind (getattr_score api est) (\<lambda>score_method.
     ebind (index_last X ii) (\<lambda>Xi.
     ebind (score_method Xi y) (\<lambda>s.
     ebind (case (if ii = 0 then Some (sl_score_init s n_iter) else score) of
              None \<Rightarrow> Inl UnboundLocalError | Some sc \<Rightarrow> setitem_0 sc ii s) (\<lambda>sc.
     sl_score_loop api X y n_iter (Some sc) rest))))"

definition sl_score :: "'e model_api \<Rightarrow> 'e list \<Rightarrow> ndarray \<Rightarrow> rat list \<Rightarrow> error + ndarray" where
  "sl_score api estimators X y =
     (case shape X of
        [n_sample, n_chan, n_iter] \<Rightarrow>
          ebind (sl_score_loop api X y n_iter None (enumerate 0 estimators)) (\<lambda>score.
            case score of None \<Rightarrow> Inl UnboundLocalError | Some sc \<Rightarrow> Inr sc)
      | _ \<Rightarrow> Inl (ValueError ''unpack''))"

text \<open>
  \<open>fit\<close> returns what the call raises or nothing, and the object as the call leaves it:
  \<open>estimators_\<close> is set to the empty list before the parallel run, so a failing run
  leaves it empty. After the run it is the array \<open>np.concatenate(estimators, 0)\<close>, held as
  the list of its entries along the first axis.
\<close>

definition SearchLight_fit ::
  "'e model_api \<Rightarrow> 'e SearchLight \<Rightarrow> ndarray \<Rightarrow> rat list \<Rightarrow> (error + unit) \<times> 'e SearchLight" where
  "SearchLight_fit api self X y =
     (case check_Xy X (Some y) of
        Inl e \<Rightarrow> (Inl e, self)
      | Inr _ \<Rightarrow>
          (let self = self\<lparr>estimators_attr := Some []\<rparr>;
               k = parallel_func api (n_jobs self)
           in case ebind (array_split_last X k) (\<lambda>splits.
                     ebind (parallel (map (\<lambda>split. sl_fit api (base_estimator self) split y) splits))
                       (\<lambda>estimators. concatenate_objects api estimators)) of
                Inl e \<Rightarrow> (Inl e, self)
              | Inr ests \<Rightarrow> (Inr (), self\<lparr>estimators_attr := Some ests\<rparr>)))"

definition SearchLight_transform_aux ::
  "'e model_api \<Rightarrow> 'e SearchLight \<Rightarrow> ndarray \<Rightarrow> string \<Rightarrow> error + ndarray" where
  "SearchLight_transform_aux api self X method =
     ebind (check_Xy X None) (\<lambda>_.
     let method = check_method api (base_estimator self) method in
     ebind (get_estimators self) (\<lambda>ests.
     if last (shape X) \<noteq> length ests
     then Inl (ValueError ''The number of estimators does not match X.shape[2]'')
     else
       let k = parallel_func api (n_jobs self) in
       ebind (array_split_last X k) (\<lambda>X_splits.
       ebind (array_split_list ests k) (\<lambda>est_splits.
       ebind (parallel (map (\<lambda>(est, x). sl_transform api est x method) (zip est_splits X_splits)))
         (\<lambda>y_pred.
       if 1 < k then np_concatenate y_pred 1
       else (case y_pred of [] \<Rightarrow> Inl IndexError | y0 # _ \<Rightarrow> Inr y0))))))"

definition SearchLight_transform :: "'e model_api \<Rightarrow> 'e SearchLight \<Rightarrow> ndarray \<Rightarrow> error + ndarray" where
  "SearchLight_transform api self X = SearchLight_transform_aux api self X ''transform''"

definition SearchLight_predict :: "'e model_api \<Rightarrow> 'e SearchLight \<Rightarrow> ndarray \<Rightarrow> error + ndarray" where
  "SearchLight_predict api self X = SearchLight_transform_aux api self X ''predict''"

definition SearchLight_predict_proba :: "'e model_api \<Rightarrow> 'e SearchLight \<Rightarrow> ndarray \<Rightarrow> error + ndarray" where
  "SearchLight_predict_proba api self X = SearchLight_transform_aux api self X ''predict_proba''"

definition SearchLight_decision_function :: "'e model_api \<Rightarrow> 'e SearchLight \<Rightarrow> ndarray \<Rightarrow> error + ndarray" where
  "SearchLight_decision_function api self X = SearchLight_transform_aux api self X ''decision_function''"

definition SearchLight_score ::
  "'e model_api \<Rightarrow> 'e SearchLight \<Rightarrow> ndarray \<Rightarrow> rat list \<Rightarrow> error + ndarray" where
  "SearchLight_score api self X y =
     ebind (check_Xy X None) (\<lambda>_.
     ebind (get_estimators self) (\<lambda>ests.
     if last (shape X) \<noteq> length ests
     then Inl (ValueError ''The number of estimators does not match X.shape[2]'')
     else
       let k = parallel_func api (n_jobs self) in
       ebind (array_split_last X k) (\<lambda>X_splits.
       ebind (array_split_list ests k) (\<lambda>est_splits.
       ebind (parallel (map (\<lambda>(est, x). sl_score api est x y) (zip est_splits X_splits)))
         (\<lambda>score.
       if 1 < k then np_concatenate score 0
       else (case score of [] \<Rightarrow> Inl IndexError | s0 # _ \<Rightarrow> Inr s0))))))"

section \<open>GeneralizationLight\<close>

text \<open>
  GeneralizationLight is a subclass of SearchLight with the same attributes; it
  overrides \<open>_transform\<close> and \<open>score\<close>. The body of the loop of \<open>_gl_transform\<close> is
  \<open>gl_stack\<close> (the two lines that build \<open>X_stack\<close>), the model call, and \<open>gl_unstack\<close>.
\<close>

definition gl_stack :: "ndarray \<Rightarrow> nat \<Rightarrow> nat \<Rightarrow> nat \<Rightarrow> error + ndarray" where
  "gl_stack X n_sample n_chan n_iter =
     ebind (transpose_102 X) (\<lambda>X_stack.
     ebind (np_reshape X_stack [n_chan, n_sample * n_iter]) matrix_T)"

definition gl_unstack :: "ndarray \<Rightarrow> nat \<Rightarrow> nat \<Rightarrow> error + ndarray" where
  "gl_unstack y n_sample n_iter =
     (if ndim y = 2 then np_reshape y [n_sample, n_iter, shape y ! 1]
      else np_reshape y ([n_sample, n_iter] @ tl (shape y)))"

definition gl_apply :: "'e model_api \<Rightarrow> 'e \<Rightarrow> ndarray \<Rightarrow> string \<Rightarrow> error + ndarray" where
  "gl_apply api est X method =
     (case shape X of
        [n_sample, n_chan, n_iter] \<Rightarrow>
          ebind (gl_stack X n_sample n_chan n_iter) (\<lambda>X_stack.
          ebind (py_getattr api est method) (\<lambda>transform.
          ebind (transform X_stack) (\<lambda>y. gl_unstack y n_sample n_iter)))
      | _ \<Rightarrow> Inl (ValueError ''unpack''))"

definition gl_init_pred :: "ndarray \<Rightarrow> ndarray \<Rightarrow> nat \<Rightarrow> error + ndarray" where
  "gl_init_pred y_pred X n_train =
     (case shape X of
        [n_sample, n_chan, n_iter] \<Rightarrow>
          if ndim y_pred = 3
          then Inr (np_zeros [n_sample, n_train, n_iter, last (shape y_pred)] DFloat)
          else Inr (np_zeros [n_sample, n_train, n_iter] DFloat)
      | _ \<Rightarrow> Inl (ValueError ''unpack''))"

fun gl_transform_loop ::
  "'e model_api \<Rightarrow> ndarray \<Rightarrow> string \<Rightarrow> nat \<Rightarrow> ndarray option \<Rightarrow> (nat \<times> 'e) list \<Rightarrow> error + ndarray option" where
  "gl_transform_loop api X method n_train y_pred [] = Inr y_pred"
| "gl_transform_loop api X method n_train y_pred ((ii, est) # rest) =
     ebind (gl_apply api est X method) (\<lambda>y.
     ebind (if ii = 0 then ebind (gl_init_pred y X n_train) (\<lambda>z. Inr (Some z)) else Inr y_pred) (\<lambda>y_pred.
     ebind (case y_pred of None \<Rightarrow> Inl UnboundLocalError | Some yp \<Rightarrow> setitem_1 yp ii y) (\<lambda>yp.
     gl_transform_loop api X method n_train (Some yp) rest)))"

definition gl_transform :: "'e model_api \<Rightarrow> 'e list \<Rightarrow> ndarray \<Rightarrow> string \<Rightarrow> error + ndarray" where
  "gl_transform api estimators X method =
     (case shape X of
        [n_sample, n_chan, n_iter] \<Rightarrow>
          ebind (gl_transform_loop api X method (length estimators) None (enumerate 0 estimators))
            (\<lambda>y_pred. case y_pred of None \<Rightarrow> Inl UnboundLocalError | Some yp \<Rightarrow> Inr yp)
      | _ \<Rightarrow> Inl (ValueError ''unpack''))"

text \<open>The allocation of \<open>_gl_score\<close> at the first score: \<open>np.ndim(_score)\<close> is true for rank 1 and more.\<close>

definition gl_score_init :: "ndarray \<Rightarrow> nat \<Rightarrow> nat \<Rightarrow> ndarray" where
  "gl_score_init s n_est n_iter =
     (if 0 < ndim s then np_zeros ([n_est, n_iter] @ shape s) DInt
      else np_zeros [n_est, n_iter] DFloat)"

fun gl_score_inner ::
  "'e model_api \<Rightarrow> ndarray \<Rightarrow> rat list \<Rightarrow> nat \<Rightarrow> nat \<Rightarrow> nat \<Rightarrow> 'e \<Rightarrow> ndarray option \<Rightarrow> nat list
     \<Rightarrow> error + ndarray option" where
  "gl_score_inner api X y n_est n_iter ii est score [] = Inr score"
| "gl_score_inner api X y n_est n_iter ii est score (jj # jjs) =
     ebind (getattr_score api est) (\<lambda>score_method.
     ebind (index_last X jj) (\<lambda>Xj.
     ebind (score_method Xj y) (\<lambda>s.
     ebind (case (if ii = 0 \<and> jj = 0 then Some (gl_score_init s n_est n_iter) else score) of
              None \<Rightarrow> Inl UnboundLocalError | Some sc \<Rightarrow> setitem_0_1 sc ii jj s) (\<lambda>sc.
     gl_score_inner api X y n_est n_iter ii est (Some sc) jjs))))"

fun gl_score_loop ::
  "'e model_api \<Rightarrow> ndarray \<Rightarrow> rat list \<Rightarrow> nat \<Rightarrow> nat \<Rightarrow> ndarray option \<Rightarrow> (nat \<times> 'e) list
     \<Rightarrow> error + ndarray option" where
  "gl_score_loop api X y n_est n_iter score [] = Inr score"
| "gl_score_loop api X y n_est n_iter score ((ii, est) # rest) =
     ebind (gl_score_inner api X y n_est n_iter ii est score [0..<last (shape X)]) (\<lambda>score.
     gl_score_loop api X y n_est n_iter score rest)"

definition gl_score :: "'e model_api \<Rightarrow> 'e list \<Rightarrow> ndarray \<Rightarrow> rat list \<Rightarrow> error + ndarray" where
  "gl_score api estimators X y =
     (case shape X of
        [n_sample, n_chan, n_iter] \<Rightarrow>
          ebind (gl_score_loop api X y (length estimators) n_iter None (enumerate 0 estimators))
            (\<lambda>score. case score of None \<Rightarrow> Inl UnboundLocalError | Some sc \<Rightarrow> Inr sc)
      | _ \<Rightarrow> Inl (ValueError ''unpack''))"

text \<open>
  The methods. After \<open>_check_Xy\<close> the input has rank 3, so the split along axis 2 is the
  split along the last axis.
\<close>

definition GeneralizationLight_transform_aux ::
  "'e model_api \<Rightarrow> 'e SearchLight \<Rightarrow> ndarray \<Rightarrow> string \<Rightarrow> error + ndarray" where
  "GeneralizationLight_transform_aux api self X method =
     ebind (check_Xy X None) (\<lambda>_.
     let method = check_method api (base_estimator self) method;
         k = parallel_func api (n_jobs self) in
     ebind (array_split_last X k) (\<lambda>X_splits.
     ebind (get_estimators self) (\<lambda>ests.
     ebind (parallel (map (\<lambda>x_split. gl_transform api ests x_split method) X_splits)) (\<lambda>y_pred.
     np_concatenate y_pred 2))))"



definition GeneralizationLight_predict_proba :: "'e model_api \<Rightarrow> 'e SearchLight \<Rightarrow> ndarray \<Rightarrow> error + ndarray" where
  "GeneralizationLight_predict_proba api self X = GeneralizationLight_transform_aux api self X ''predict_proba''"

definition GeneralizationLight_decision_function :: "'e model_api \<Rightarrow> 'e SearchLight \<Rightarrow> ndarray \<Rightarrow> error + ndarray" where
  "GeneralizationLight_decision_function api self X = GeneralizationLight_transform_aux api self X ''decision_function''"

definition GeneralizationLight_score ::
  "'e model_api \<Rightarrow> 'e SearchLight \<Rightarrow> ndarray \<Rightarrow> rat list \<Rightarrow> error + ndarray" where
  "GeneralizationLight_score api self X y =
     ebind (check_Xy X None) (\<lambda>_.
     let k = parallel_func api (n_jobs self) in
     ebind (array_split_last X k) (\<lambda>X_splits.
     ebind (get_estimators self) (\<lambda>ests.
     ebind (parallel (map (\<lambda>x. gl_score api ests x y) X_splits)) (\<lambda>score.
     if 1 < k then np_concatenate score 1
     else (case score of [] \<Rightarrow> Inl IndexError | s0 # _ \<Rightarrow> Inr s0)))))"

section \<open>A concrete base model\<close>

text \<open>
  A small model for evaluating the code on concrete inputs. An object lists its
  attributes and holds one coefficient; \<open>fit\<close> stores the sum of the slice and of the
  targets, \<open>predict\<close> adds the coefficient to the sum of each row, \<open>transform\<close> does the
  same relative to the first row of the batch it is given (it centres the batch on its
  first row), any other method returns for each row the pair of the row sum and the
  coefficient, and the score is the coefficient. These objects are not sequences, so
  the array library never unpacks them (\<open>object_array\<close> is not reached).
\<close>

datatype toy = Toy (toy_attrs: "string list") (toy_coef: rat)

definition matrix_rows :: "ndarray \<Rightarrow> rat list list" where
  "matrix_rows M = map (\<lambda>i. take (shape M ! 1) (drop (i * (shape M ! 1)) (data M))) [0..<shape M ! 0]"

definition toy_call :: "toy \<Rightarrow> string \<Rightarrow> ndarray \<Rightarrow> error + ndarray" where
  "toy_call e m M =
     (if m = ''predict''
      then Inr \<lparr>shape = [shape M ! 0], dtype = DFloat,
                data = map (\<lambda>r. toy_coef e + sum_list r) (matrix_rows M)\<rparr>
      else if m = ''transform''
      then Inr \<lparr>shape = [shape M ! 0], dtype = DFloat,
                data = map (\<lambda>r. toy_coef e + sum_list r - sum_list (hd (matrix_rows M)))
                           (matrix_rows M)\<rparr>
      else Inr \<lparr>shape = [shape M ! 0, 2], dtype = DFloat,
                data = concat (map (\<lambda>r. [sum_list r, toy_coef e]) (matrix_rows M))\<rparr>)"

definition toy_api :: "toy model_api" where
  "toy_api =
     \<lparr>hasattr = (\<lambda>e m. List.member (toy_attrs e) m),
      clone = (\<lambda>e. Toy (toy_attrs e) 0),
      est_fit = (\<lambda>e Xi y. Inr (Toy (toy_attrs e) (sum_list (data Xi) + sum_list y))),
      est_call = toy_call,
      est_score = (\<lambda>e Xi y. Inr \<lparr>shape = [], dtype = DFloat, data = [toy_coef e]\<rparr>),
      sequence_items = (\<lambda>e. None),
      object_array = (\<lambda>es. Toy [] 0),
      n_cores = 2\<rparr>"

text \<open>A tensor of 2 samples, 1 feature and 2 slices, and one of 2 samples, 1 feature, 1 slice.\<close>

definition X22 :: ndarray where
  "X22 = \<lparr>shape = [2, 1, 2], dtype = DFloat, data = [1, 2, 3, 4]\<rparr>"

definition X21 :: ndarray where
  "X21 = \<lparr>shape = [2, 1, 1], dtype = DFloat, data = [5, 7]\<rparr>"

text \<open>A model whose every method raises: any call of it shows in the result.\<close>

definition raising_api :: "toy model_api" where
  "raising_api =
     \<lparr>hasattr = (\<lambda>e m. List.member (toy_attrs e) m),
      clone = (\<lambda>e. e),
      est_fit = (\<lambda>e Xi y. Inl (ModelError 0)),
      est_call = (\<lambda>e m M. Inl (ModelError 1)),
      est_score = (\<lambda>e Xi y. Inl (ModelError 2)),
      sequence_items = (\<lambda>e. None),
      object_array = (\<lambda>es. Toy [] 0),
      n_cores = 2\<rparr>"

text \<open>A tensor of 2 samples, 1 feature and 2 slices with fractional entries.\<close>

definition X22h :: ndarray where
  "X22h = \<lparr>shape = [2, 1, 2], dtype = DFloat, data = [1 / 2, 3 / 2, 5 / 2, 7 / 2]\<rparr>"


text \<open>
  An ensemble model. A \<open>Bag\<close> is an ensemble: \<open>fit\<close> gives it two members, holding the
  sum of the slice and the sum of the targets, and from then on it is a sequence of its
  members (\<open>len\<close> and indexing work once it is fitted, as for a scikit-learn ensemble).
  A \<open>Member\<close> is a sub-estimator and no sequence. An \<open>ObjArray\<close> is an array of
  objects; it has none of the model methods.
\<close>

datatype bag = Bag bool "rat list" | Member rat | ObjArray "bag list"

definition bag_offset :: "bag \<Rightarrow> rat" where
  "bag_offset e = (case e of Bag fitted ms \<Rightarrow> sum_list ms | Member c \<Rightarrow> c | ObjArray es \<Rightarrow> 0)"

definition bag_api :: "bag model_api" where
  "bag_api =
     \<lparr>hasattr = (\<lambda>e m. case e of
                     Bag fitted ms \<Rightarrow> List.member [''fit'', ''predict'', ''score''] m
                   | Member c \<Rightarrow> m = ''predict''
                   | ObjArray es \<Rightarrow> False),
      clone = (\<lambda>e. case e of Bag fitted ms \<Rightarrow> Bag False [] | Member c \<Rightarrow> e | ObjArray es \<Rightarrow> e),
      est_fit = (\<lambda>e Xi y. Inr (Bag True [sum_list (data Xi), sum_list y])),
      est_call = (\<lambda>e m M. Inr \<lparr>shape = [shape M ! 0], dtype = DFloat,
                                 data = map (\<lambda>r. bag_offset e + sum_list r) (matrix_rows M)\<rparr>),
      est_score = (\<lambda>e Xi y. Inr \<lparr>shape = [], dtype = DFloat, data = [bag_offset e]\<rparr>),
      sequence_items = (\<lambda>e. case e of
                            Bag fitted ms \<Rightarrow> (if fitted then Some (map Member ms) else None)
                          | Member c \<Rightarrow> None
                          | ObjArray es \<Rightarrow> Some es),
      object_array = ObjArray,
      n_cores = 2\<rparr>"

text \<open>
  For stating how an axis is partitioned: \<open>sample_range a st z\<close> is \<open>a[st:st+z]\<close>, a range
  of the first (sample) axis, and \<open>consecutive_from st secs l\<close> says that the sections
  follow one another from \<open>st\<close> and end at \<open>l\<close>.
\<close>

definition sample_range :: "ndarray \<Rightarrow> nat \<Rightarrow> nat \<Rightarrow> ndarray" where
  "sample_range a st z =
     \<lparr>shape = z # tl (shape a), dtype = dtype a,
      data = take (z * prod_list (tl (shape a))) (drop (st * prod_list (tl (shape a))) (data a))\<rparr>"

fun consecutive_from :: "nat \<Rightarrow> (nat \<times> nat) list \<Rightarrow> nat \<Rightarrow> bool" where
  "consecutive_from st [] l = (st = l)"
| "consecutive_from st ((a, z) # secs) l = (a = st \<and> consecutive_from (st + z) secs l)"

text \<open>
  For stating what \<open>fit\<close> computes: the estimator of slice \<open>ii\<close> is a clone of the
  prototype fitted on \<open>X[..., ii]\<close> and \<open>y\<close>.
\<close>

definition fit_slice :: "'e model_api \<Rightarrow> 'e \<Rightarrow> ndarray \<Rightarrow> rat list \<Rightarrow> nat \<Rightarrow> error + 'e" where
  "fit_slice api estimator X y ii =
     ebind (getattr_fit api (clone api estimator)) (\<lambda>fit.
     ebind (index_last X ii) (\<lambda>Xi. fit Xi y))"

text \<open>
  A model method is row-independent when its result on a matrix is, row by row, a
  function \<open>g\<close> of that row alone: the result has one block of shape \<open>tshape\<close> per row,
  the block of row \<open>i\<close> being \<open>g\<close> of row \<open>i\<close>. \<open>tensor_row X i j\<close> is \<open>X[i, :, j]\<close>.
\<close>

definition row_independent ::
  "'e model_api \<Rightarrow> 'e \<Rightarrow> string \<Rightarrow> (rat list \<Rightarrow> rat list) \<Rightarrow> nat list \<Rightarrow> dtype \<Rightarrow> bool" where
  "row_independent api est method g tshape d =
     (hasattr api est method
      \<and> (\<forall>row. length (g row) = prod_list tshape)
      \<and> (\<forall>M r c. shape M = [r, c] \<and> valid M \<longrightarrow>
             est_call api est method M
               = Inr \<lparr>shape = r # tshape, dtype = d, data = concat (map g (matrix_rows M))\<rparr>))"

definition tensor_row :: "ndarray \<Rightarrow> nat \<Rightarrow> nat \<Rightarrow> rat list" where
  "tensor_row X i j =
     map (\<lambda>k. data X ! ((i * (shape X ! 1) + k) * (shape X ! 2) + j)) [0..<shape X ! 1]"

text \<open>
  The reference for the cross-slice apply of one estimator, in the specification's
  words: loop over the test slices, apply the estimator to each slice, and concatenate
  the per-slice results along the slice axis of the output (each result \<open>y\<close> enters as
  \<open>y[:, None, ...]\<close>).
\<close>

definition expand_axis1 :: "ndarray \<Rightarrow> ndarray" where
  "expand_axis1 y = y\<lparr>shape := hd (shape y) # 1 # tl (shape y)\<rparr>"

definition gl_apply_per_slice :: "'e model_api \<Rightarrow> 'e \<Rightarrow> ndarray \<Rightarrow> string \<Rightarrow> error + ndarray" where
  "gl_apply_per_slice api est X method =
     (case shape X of
        [n_sample, n_chan, n_iter] \<Rightarrow>
          ebind (py_getattr api est method) (\<lambda>transform.
          ebind (parallel (map (\<lambda>jj. ebind (index_last X jj) transform) [0..<n_iter])) (\<lambda>ys.
          np_concatenate (map expand_axis1 ys) 1))
      | _ \<Rightarrow> Inl (ValueError ''unpack''))"

text \<open>Reading a result: \<open>a[:, i, ...]\<close>; the diagonal entry \<open>b[:, i, i, ...]\<close> is this read twice.\<close>

definition getitem_1 :: "ndarray \<Rightarrow> nat \<Rightarrow> error + ndarray" where
  "getitem_1 a i =
     (case shape a of
        d0 # d1 # ts \<Rightarrow>
          if d1 \<le> i then Inl IndexError
          else Inr \<lparr>shape = d0 # ts, dtype = dtype a,
                    data = map (\<lambda>q. data a ! (((q div prod_list ts) * d1 + i) * prod_list ts
                                               + q mod prod_list ts))
                               [0..<d0 * prod_list ts]\<rparr>
      | _ \<Rightarrow> Inl IndexError)"

definition getitem_1_2 :: "ndarray \<Rightarrow> nat \<Rightarrow> nat \<Rightarrow> error + ndarray" where
  "getitem_1_2 b i j = ebind (getitem_1 b i) (\<lambda>z. getitem_1 z j)"

section \<open>Properties\<close>

lemma ebind_simps [simp]:
  "ebind (Inl e) f = Inl e" "ebind (Inr x) f = f x"
  by (simp_all add: ebind_def)

subsection \<open>Capability check\<close>

text \<open>
  C1. The claim: a requested operation the base model does not support fails the call
  with a capability error raised by \<open>_check_method\<close>. The code builds the error and does
  not raise it. At a prototype without \<open>predict_proba\<close>, \<open>_check_method\<close> returns
  \<open>predict_proba\<close>; the call then fails with the AttributeError of \<open>getattr\<close> on a fitted
  estimator that lacks the method, and succeeds when the fitted estimator has it.
\<close>

theorem check_method_returns_unsupported:
  "\<not> hasattr toy_api (Toy [''fit'', ''predict''] 0) ''predict_proba''
   \<and> check_method toy_api (Toy [''fit'', ''predict''] 0) ''predict_proba'' = ''predict_proba''
   \<and> SearchLight_predict_proba toy_api
        \<lparr>base_estimator = Toy [''fit'', ''predict''] 0, n_jobs = 1,
           estimators_attr = Some [Toy [''fit'', ''predict''] 5]\<rparr> X21 = Inl AttributeError
   \<and> SearchLight_predict_proba toy_api
        \<lparr>base_estimator = Toy [''fit'', ''predict''] 0, n_jobs = 1,
           estimators_attr = Some [Toy [''fit'', ''predict'', ''predict_proba''] 5]\<rparr> X21
       = Inr \<lparr>shape = [2, 1, 2], dtype = DInt, data = [5, 5, 7, 5]\<rparr>"
  by code_simp

subsection \<open>Count mismatch\<close>

text \<open>
  C9. For a fitted same-slice ensemble and a rank-3 input whose slice count differs from
  the number of fitted estimators, transform, predict, predict_proba,
  decision_function and score all fail with the count-mismatch ValueError. The result is
  this error for every model, also one whose every method raises, so no model method
  runs before the failure.
\<close>

theorem count_mismatch_ShapeError:
  assumes "ndim X = 3" and "estimators_attr self = Some ests" and "last (shape X) \<noteq> length ests"
  shows "SearchLight_transform api self X = Inl (ValueError ''The number of estimators does not match X.shape[2]'')
       \<and> SearchLight_predict api self X = Inl (ValueError ''The number of estimators does not match X.shape[2]'')
       \<and> SearchLight_predict_proba api self X = Inl (ValueError ''The number of estimators does not match X.shape[2]'')
       \<and> SearchLight_decision_function api self X = Inl (ValueError ''The number of estimators does not match X.shape[2]'')
       \<and> SearchLight_score api self X y = Inl (ValueError ''The number of estimators does not match X.shape[2]'')"
  using assms
  by (simp add: SearchLight_transform_def SearchLight_predict_def SearchLight_predict_proba_def
      SearchLight_decision_function_def SearchLight_score_def SearchLight_transform_aux_def
      check_Xy_def check_ndim_def get_estimators_def Let_def)

theorem count_mismatch_ShapeError_witness:
  "ndim X22 = 3
   \<and> estimators_attr \<lparr>base_estimator = Toy [''predict''] 0, n_jobs = 1, estimators_attr = Some [Toy [''predict''] 0]\<rparr>
        = Some [Toy [''predict''] 0]
   \<and> last (shape X22) \<noteq> length [Toy [''predict''] 0]
   \<and> SearchLight_predict raising_api
        \<lparr>base_estimator = Toy [''predict''] 0, n_jobs = 1, estimators_attr = Some [Toy [''predict''] 0]\<rparr> X22
       = Inl (ValueError ''The number of estimators does not match X.shape[2]'')
   \<and> SearchLight_score raising_api
        \<lparr>base_estimator = Toy [''predict''] 0, n_jobs = 1, estimators_attr = Some [Toy [''predict''] 0]\<rparr> X22 [1, 0]
       = Inl (ValueError ''The number of estimators does not match X.shape[2]'')"
  using count_mismatch_ShapeError [of X22
      "\<lparr>base_estimator = Toy [''predict''] 0, n_jobs = 1, estimators_attr = Some [Toy [''predict''] 0]\<rparr>"
      "[Toy [''predict''] 0]" raising_api "[1, 0]"]
  by (simp add: X22_def ndim_def)

subsection \<open>Capability fallback\<close>






subsection \<open>Validation of the targets\<close>

text \<open>
  C5. The claim: fit and score both check that X and y have the same number of samples
  and that y is not empty. \<open>fit\<close> passes y to \<open>_check_Xy\<close> and fails on an empty y;
  \<open>score\<close> calls \<open>_check_Xy\<close> without y, so with an empty y, or one of another length,
  it runs the models and returns their scores.
\<close>

theorem score_skips_target_validation:
  "check_Xy X22 (Some []) = Inl (ValueError ''X and y must have the same length.'')
   \<and> fst (SearchLight_fit toy_api (SearchLight_init (Toy [''fit'', ''predict'', ''score''] 0) 1) X22 [])
       = Inl (ValueError ''X and y must have the same length.'')
   \<and> GeneralizationLight_score toy_api
        \<lparr>base_estimator = Toy [''fit'', ''predict'', ''score''] 0, n_jobs = 1,
           estimators_attr = Some [Toy [''fit'', ''predict'', ''score''] 1, Toy [''fit'', ''predict'', ''score''] 2]\<rparr>
        X22 []
       = Inr \<lparr>shape = [2, 2], dtype = DFloat, data = [1, 1, 2, 2]\<rparr>
   \<and> GeneralizationLight_score toy_api
        \<lparr>base_estimator = Toy [''fit'', ''predict'', ''score''] 0, n_jobs = 1,
           estimators_attr = Some [Toy [''fit'', ''predict'', ''score''] 1, Toy [''fit'', ''predict'', ''score''] 2]\<rparr>
        X22 [1, 0, 1]
       = Inr \<lparr>shape = [2, 2], dtype = DFloat, data = [1, 1, 2, 2]\<rparr>"
  by code_simp

subsection \<open>Number of jobs\<close>

text \<open>
  C4. The claim: the result with one job equals the result with any larger number of
  jobs. With one fitted estimator, one slice and two jobs the second chunk is empty: the
  loops of \<open>_sl_transform\<close> and \<open>_gl_score\<close> never bind their result, and the call fails
  with UnboundLocalError where the call with one job returns.
\<close>

theorem n_jobs_beyond_slices_fails:
  "SearchLight_predict toy_api
     \<lparr>base_estimator = Toy [''fit'', ''predict'', ''score''] 0, n_jobs = 1,
        estimators_attr = Some [Toy [''fit'', ''predict'', ''score''] 5]\<rparr> X21
     = Inr \<lparr>shape = [2, 1], dtype = DFloat, data = [10, 12]\<rparr>
   \<and> SearchLight_predict toy_api
     \<lparr>base_estimator = Toy [''fit'', ''predict'', ''score''] 0, n_jobs = 2,
        estimators_attr = Some [Toy [''fit'', ''predict'', ''score''] 5]\<rparr> X21
     = Inl UnboundLocalError
   \<and> GeneralizationLight_score toy_api
     \<lparr>base_estimator = Toy [''fit'', ''predict'', ''score''] 0, n_jobs = 1,
        estimators_attr = Some [Toy [''fit'', ''predict'', ''score''] 5]\<rparr> X21 [1, 0]
     = Inr \<lparr>shape = [1, 1], dtype = DFloat, data = [5]\<rparr>
   \<and> GeneralizationLight_score toy_api
     \<lparr>base_estimator = Toy [''fit'', ''predict'', ''score''] 0, n_jobs = 2,
        estimators_attr = Some [Toy [''fit'', ''predict'', ''score''] 5]\<rparr> X21 [1, 0]
     = Inl UnboundLocalError"
  by code_simp

subsection \<open>Allocation of the output\<close>





lemma astype_same: "astype d d v = v"
  by (cases d) (simp_all add: astype_def)

lemma map_astype_same: "map (astype d d) xs = xs"
  by (induction xs) (simp_all add: astype_same)




















subsection \<open>Partition axis\<close>

lemma length_section_sizes: "0 < k \<Longrightarrow> length (section_sizes l k) = k"
  by (simp add: section_sizes_def)

lemma sum_section_sizes: "0 < k \<Longrightarrow> sum_list (section_sizes l k) = l"
proof -
  assume k: "0 < k"
  have le: "l mod k \<le> k" using k by (simp add: less_imp_le)
  have "sum_list (section_sizes l k) = (l mod k) * (l div k + 1) + (k - l mod k) * (l div k)"
    by (simp add: section_sizes_def sum_list_replicate)
  also have "\<dots> = l mod k + ((l mod k) + (k - l mod k)) * (l div k)"
    by (simp add: algebra_simps)
  also have "\<dots> = l mod k + k * (l div k)" using le by simp
  also have "\<dots> = l" by simp
  finally show ?thesis .
qed

lemma length_sections_from: "length (sections_from st zs) = length zs"
  by (induction zs arbitrary: st) auto

lemma consecutive_sections_from: "consecutive_from st (sections_from st zs) (st + sum_list zs)"
proof (induction zs arbitrary: st)
  case Nil
  show ?case by simp
next
  case (Cons z zs)
  from Cons [of "st + z"] show ?case by (simp add: add.assoc)
qed

lemma sections_cover: "0 < k \<Longrightarrow> length (sections l k) = k \<and> consecutive_from 0 (sections l k) l"
  using consecutive_sections_from [of 0 "section_sizes l k"]
  by (simp add: sections_def length_sections_from length_section_sizes sum_section_sizes)

lemma zip_map_same: "zip (map f xs) (map g xs) = map (\<lambda>x. (f x, g x)) xs"
  by (induction xs) auto

lemma check_Xy_rank3: "ndim X = 3 \<Longrightarrow> check_Xy X None = Inr ()"
  by (simp add: check_Xy_def check_ndim_def)

text \<open>
  C3, as stated: each dispatched chunk is a range of the samples of X. For the tensor of
  2 samples, 1 feature and 2 slices and two jobs, the chunks are the two slices, each
  with both samples, and not the two samples.
\<close>

theorem chunks_are_not_sample_ranges:
  "array_split_last X22 (parallel_func toy_api 2)
     = Inr [\<lparr>shape = [2, 1, 1], dtype = DFloat, data = [1, 3]\<rparr>,
            \<lparr>shape = [2, 1, 1], dtype = DFloat, data = [2, 4]\<rparr>]
   \<and> map (\<lambda>(st, z). sample_range X22 st z) (sections 2 2)
     = [\<lparr>shape = [1, 1, 2], dtype = DFloat, data = [1, 2]\<rparr>,
        \<lparr>shape = [1, 1, 2], dtype = DFloat, data = [3, 4]\<rparr>]
   \<and> array_split_last X22 (parallel_func toy_api 2)
     \<noteq> Inr (map (\<lambda>(st, z). sample_range X22 st z) (sections 2 2))"
  by code_simp

text \<open>
  C3, amended. For apply and score, as for fit, the partition axis is the slice axis.
  With \<open>k\<close> resolved jobs and a rank-3 input of \<open>s\<close> slices (in same-slice mode with \<open>s\<close>
  fitted estimators), there are \<open>k\<close> sections that follow one another from 0 to \<open>s\<close>;
  the chunk of the section starting at \<open>st\<close> with size \<open>z\<close> is \<open>X[..., st:st+z]\<close> with all
  samples and features (in same-slice mode together with the estimators \<open>st..st+z-1\<close>,
  in cross-slice mode with all estimators), and the results are concatenated in section
  order along the slice axis of the output.
\<close>

theorem partition_is_by_slices:
  assumes "shape X = [n, f, s]" and "estimators_attr self = Some ests"
    and "parallel_func api (n_jobs self) = k" and "0 < k"
  shows "length (sections s k) = k \<and> consecutive_from 0 (sections s k) s
    \<and> list_all (\<lambda>(st, z). shape (slice_last X st z) = [n, f, z]) (sections s k)
    \<and> (length ests = s \<longrightarrow>
        SearchLight_transform_aux api self X method =
          ebind (parallel (map (\<lambda>(st, z). sl_transform api (take z (drop st ests)) (slice_last X st z)
                                   (check_method api (base_estimator self) method)) (sections s k)))
            (\<lambda>y_pred. if 1 < k then np_concatenate y_pred 1
                       else (case y_pred of [] \<Rightarrow> Inl IndexError | y0 # _ \<Rightarrow> Inr y0))
      \<and> SearchLight_score api self X y =
          ebind (parallel (map (\<lambda>(st, z). sl_score api (take z (drop st ests)) (slice_last X st z) y) (sections s k)))
            (\<lambda>score. if 1 < k then np_concatenate score 0
                      else (case score of [] \<Rightarrow> Inl IndexError | s0 # _ \<Rightarrow> Inr s0)))
    \<and> GeneralizationLight_transform_aux api self X method =
        ebind (parallel (map (\<lambda>(st, z). gl_transform api ests (slice_last X st z)
                                 (check_method api (base_estimator self) method)) (sections s k)))
          (\<lambda>y_pred. np_concatenate y_pred 2)
    \<and> GeneralizationLight_score api self X y =
        ebind (parallel (map (\<lambda>(st, z). gl_score api ests (slice_last X st z) y) (sections s k)))
          (\<lambda>score. if 1 < k then np_concatenate score 1
                    else (case score of [] \<Rightarrow> Inl IndexError | s0 # _ \<Rightarrow> Inr s0))"
proof -
  have r3: "check_Xy X None = Inr ()" using assms(1) by (simp add: check_Xy_rank3 ndim_def)
  have sp: "array_split_last X k = Inr (map (\<lambda>(st, z). slice_last X st z) (sections s k))"
    using assms(1,4) by (simp add: array_split_last_def)
  have se: "array_split_list ests k = Inr (map (\<lambda>(st, z). take z (drop st ests)) (sections s k))"
    if "length ests = s"
    using that assms(4) by (simp add: array_split_list_def)
  have zp: "zip (map (\<lambda>(st, z). take z (drop st ests)) (sections s k))
                (map (\<lambda>(st, z). slice_last X st z) (sections s k))
            = map (\<lambda>(st, z). (take z (drop st ests), slice_last X st z)) (sections s k)"
    by (simp add: zip_map_same split_def)
  have sh: "list_all (\<lambda>(st, z). shape (slice_last X st z) = [n, f, z]) (sections s k)"
    using assms(1) by (simp add: list_all_iff slice_last_def split_def)
  have sl: "SearchLight_transform_aux api self X method =
          ebind (parallel (map (\<lambda>(st, z). sl_transform api (take z (drop st ests)) (slice_last X st z)
                                   (check_method api (base_estimator self) method)) (sections s k)))
            (\<lambda>y_pred. if 1 < k then np_concatenate y_pred 1
                       else (case y_pred of [] \<Rightarrow> Inl IndexError | y0 # _ \<Rightarrow> Inr y0))
      \<and> SearchLight_score api self X y =
          ebind (parallel (map (\<lambda>(st, z). sl_score api (take z (drop st ests)) (slice_last X st z) y) (sections s k)))
            (\<lambda>score. if 1 < k then np_concatenate score 0
                      else (case score of [] \<Rightarrow> Inl IndexError | s0 # _ \<Rightarrow> Inr s0))"
    if len: "length ests = s"
    using assms len r3 sp se [OF len] zp
    by (simp add: SearchLight_transform_aux_def SearchLight_score_def
        get_estimators_def Let_def comp_def split_def)
  have gl: "GeneralizationLight_transform_aux api self X method =
        ebind (parallel (map (\<lambda>(st, z). gl_transform api ests (slice_last X st z)
                                 (check_method api (base_estimator self) method)) (sections s k)))
          (\<lambda>y_pred. np_concatenate y_pred 2)
    \<and> GeneralizationLight_score api self X y =
        ebind (parallel (map (\<lambda>(st, z). gl_score api ests (slice_last X st z) y) (sections s k)))
          (\<lambda>score. if 1 < k then np_concatenate score 1
                    else (case score of [] \<Rightarrow> Inl IndexError | s0 # _ \<Rightarrow> Inr s0))"
    using assms r3 sp
    by (simp add: GeneralizationLight_transform_aux_def GeneralizationLight_score_def
        get_estimators_def Let_def comp_def split_def)
  show ?thesis
    using sh sl gl sections_cover [OF assms(4), of s] by blast
qed

theorem partition_is_by_slices_witness:
  "shape X22 = [2, 1, 2]
   \<and> estimators_attr \<lparr>base_estimator = Toy [''predict''] 0, n_jobs = 2,
        estimators_attr = Some [Toy [''predict''] 1, Toy [''predict''] 2]\<rparr>
       = Some [Toy [''predict''] 1, Toy [''predict''] 2]
   \<and> length [Toy [''predict''] 1, Toy [''predict''] 2] = 2
   \<and> parallel_func toy_api (n_jobs \<lparr>base_estimator = Toy [''predict''] 0, n_jobs = 2,
        estimators_attr = Some [Toy [''predict''] 1, Toy [''predict''] 2]\<rparr>) = 2
   \<and> length (sections 2 2) = 2 \<and> consecutive_from 0 (sections 2 2) 2
   \<and> list_all (\<lambda>(st, z). shape (slice_last X22 st z) = [2, 1, z]) (sections 2 2)"
proof -
  have h1: "shape X22 = [2, 1, 2]" by (simp add: X22_def)
  have h2: "estimators_attr \<lparr>base_estimator = Toy [''predict''] 0, n_jobs = 2,
        estimators_attr = Some [Toy [''predict''] 1, Toy [''predict''] 2]\<rparr>
       = Some [Toy [''predict''] 1, Toy [''predict''] 2]" by simp
  have h3: "length [Toy [''predict''] 1, Toy [''predict''] 2] = 2" by simp
  have h4: "parallel_func toy_api (n_jobs \<lparr>base_estimator = Toy [''predict''] 0, n_jobs = 2,
        estimators_attr = Some [Toy [''predict''] 1, Toy [''predict''] 2]\<rparr>) = 2"
    by (simp add: parallel_func_def)
  have h5: "0 < (2::nat)" by simp
  show ?thesis
    using h1 h2 h3 h4 partition_is_by_slices [OF h1 h2 h4 h5]
    by blast
qed

subsection \<open>Fit\<close>

lemma index_last_slice_last:
  assumes "shape X = [n, f, s]" and "ii < z" and "st + z \<le> s"
  shows "index_last (slice_last X st z) ii = index_last X (st + ii)"
proof -
  have "map (\<lambda>p. map (\<lambda>q. data X ! (q div z * s + st + q mod z)) [0..<n * f * z] ! (p * z + ii)) [0..<n * f]
      = map (\<lambda>p. data X ! (p * s + (st + ii))) [0..<n * f]"
  proof (rule map_cong [OF refl])
    fix p assume "p \<in> set [0..<n * f]"
    then have p: "p < n * f" by simp
    have "p * z + ii < p * z + z" using assms(2) by simp
    also have "\<dots> = (p + 1) * z" by simp
    also have "\<dots> \<le> n * f * z" using p by (intro mult_le_mono1) simp
    finally have lt: "p * z + ii < n * f * z" .
    have d: "(p * z + ii) div z = p" using assms(2) by simp
    have m: "(p * z + ii) mod z = ii" using assms(2) by simp
    show "map (\<lambda>q. data X ! (q div z * s + st + q mod z)) [0..<n * f * z] ! (p * z + ii)
        = data X ! (p * s + (st + ii))"
      using lt assms(2) by (simp add: add.assoc)
  qed
  then show ?thesis
    using assms by (simp add: index_last_def slice_last_def)
qed

lemma sl_fit_loop_parallel:
  "sl_fit_loop api e X y iis = parallel (map (fit_slice api e X y) iis)"
  by (induction iis) (auto simp: fit_slice_def ebind_def split: sum.splits)

lemma fit_slice_slice_last:
  assumes "shape X = [n, f, s]" and "ii < z" and "st + z \<le> s"
  shows "fit_slice api e (slice_last X st z) y ii = fit_slice api e X y (st + ii)"
  using index_last_slice_last [OF assms] by (simp add: fit_slice_def)

lemma map_upt_shift: "map (\<lambda>i. g (st + i)) [0..<z] = map g [st..<st + z]"
  by (induction z) auto

lemma sl_fit_chunk:
  assumes "shape X = [n, f, s]" and "st + z \<le> s"
  shows "sl_fit api e (slice_last X st z) y = parallel (map (fit_slice api e X y) [st..<st + z])"
proof -
  have "map (fit_slice api e (slice_last X st z) y) [0..<z] = map (\<lambda>i. fit_slice api e X y (st + i)) [0..<z]"
    using assms by (intro map_cong [OF refl]) (simp add: fit_slice_slice_last)
  then show ?thesis
    by (simp add: sl_fit_def sl_fit_loop_parallel slice_last_def map_upt_shift)
qed

lemma parallel_append:
  "parallel (xs @ ys) = ebind (parallel xs) (\<lambda>a. ebind (parallel ys) (\<lambda>b. Inr (a @ b)))"
  by (induction xs) (auto simp: ebind_def split: sum.splits)

lemma parallel_concat:
  "ebind (parallel (map (\<lambda>c. parallel (map g c)) chunks)) (\<lambda>es. Inr (concat es))
     = parallel (map g (concat chunks))"
  by (induction chunks) (auto simp: parallel_append ebind_def split: sum.splits)

lemma concat_sections_from:
  "concat (map (\<lambda>(st, z). [st..<st + z]) (sections_from st zs)) = [st..<st + sum_list zs]"
proof (induction zs arbitrary: st)
  case Nil
  show ?case by simp
next
  case (Cons z zs)
  have "[st..<st + z] @ [st + z..<st + z + sum_list zs] = [st..<st + z + sum_list zs]"
    by (metis le_add1 upt_add_eq_append)
  with Cons [of "st + z"] show ?case by (simp add: add.assoc)
qed

lemma sections_from_bound:
  "(a, z) \<in> set (sections_from st zs) \<Longrightarrow> a + z \<le> st + sum_list zs"
proof (induction zs arbitrary: st)
  case Nil
  then show ?case by simp
next
  case (Cons z' zs)
  then show ?case by (fastforce simp: add.assoc)
qed

lemma parallel_Inr:
  "parallel rs = Inr xs \<Longrightarrow> length xs = length rs \<and> (\<forall>i<length rs. rs ! i = Inr (xs ! i))"
proof (induction rs arbitrary: xs)
  case Nil
  then show ?case by simp
next
  case (Cons r rs)
  from Cons.prems obtain x xs' where r: "r = Inr x" and p: "parallel rs = Inr xs'" and xs: "xs = x # xs'"
    by (auto simp: ebind_def split: sum.splits)
  from Cons.IH [OF p] show ?case
    using r xs by (auto simp: nth_Cons split: nat.splits)
qed

text \<open>
  \<open>np.concatenate\<close> makes an array of each chunk of fitted estimators. Objects that are
  no sequences stay the entries of a one-dimensional array, and the concatenation is the
  list of the fitted estimators in order.
\<close>

lemma object_dims_plain: "\<forall>e. sequence_items api e = None \<Longrightarrow> object_dims api d objs = []"
  by (cases d; cases objs) simp_all

lemma asarray_objects_plain: "\<forall>e. sequence_items api e = None \<Longrightarrow> asarray_objects api objs = objs"
  by (simp add: asarray_objects_def object_dims_plain map_idI)

lemma concatenate_objects_plain:
  assumes "\<forall>e. sequence_items api e = None" and "chunks \<noteq> []"
  shows "concatenate_objects api chunks = Inr (concat chunks)"
proof -
  have "map (asarray_objects api) chunks = chunks"
    using asarray_objects_plain [OF assms(1)] by (simp add: map_idI)
  then show ?thesis
    using assms(2) by (cases chunks) (simp_all add: concatenate_objects_def object_dims_plain [OF assms(1)] list_ex_iff)
qed

lemma ebind_concatenate_plain:
  assumes "\<forall>e. sequence_items api e = None" and "rs \<noteq> []"
  shows "ebind (parallel rs) (concatenate_objects api) = ebind (parallel rs) (\<lambda>es. Inr (concat es))"
proof (cases "parallel rs")
  case (Inl e)
  then show ?thesis by simp
next
  case (Inr xs)
  from parallel_Inr [OF Inr] assms(2) have "xs \<noteq> []" by auto
  then show ?thesis using Inr concatenate_objects_plain [OF assms(1)] by simp
qed

lemma sections_nonempty: "0 < k \<Longrightarrow> sections l k \<noteq> []"
  using length_sections_from [of 0 "section_sizes l k"] length_section_sizes [of k l]
  by (auto simp: sections_def)

lemma SearchLight_fit_slices:
  assumes X: "shape X = [n, f, s]" and chk: "check_Xy X (Some y) = Inr ()"
    and k: "0 < parallel_func api (n_jobs self)"
    and plain: "\<forall>e. sequence_items api e = None"
  shows "SearchLight_fit api self X y =
     (case parallel (map (fit_slice api (base_estimator self) X y) [0..<s]) of
        Inl e \<Rightarrow> (Inl e, self\<lparr>estimators_attr := Some []\<rparr>)
      | Inr ests \<Rightarrow> (Inr (), self\<lparr>estimators_attr := Some ests\<rparr>))"
proof -
  let ?k = "parallel_func api (n_jobs self)"
  let ?g = "fit_slice api (base_estimator self) X y"
  have sp: "array_split_last X ?k = Inr (map (\<lambda>(st, z). slice_last X st z) (sections s ?k))"
    using X k by (simp add: array_split_last_def)
  have bound: "\<And>a z. (a, z) \<in> set (sections s ?k) \<Longrightarrow> a + z \<le> s"
    using sections_from_bound [of _ _ 0 "section_sizes s ?k"] k
    by (simp add: sections_def sum_section_sizes)
  have chunks: "map (\<lambda>split. sl_fit api (base_estimator self) split y)
                  (map (\<lambda>(st, z). slice_last X st z) (sections s ?k))
              = map (\<lambda>c. parallel (map ?g c)) (map (\<lambda>(st, z). [st..<st + z]) (sections s ?k))"
    using bound by (auto simp: sl_fit_chunk [OF X])
  have cc: "concat (map (\<lambda>(st, z). [st..<st + z]) (sections s ?k)) = [0..<s]"
    using concat_sections_from [of 0 "section_sizes s ?k"] k
    by (simp add: sections_def sum_section_sizes)
  have ne: "map (\<lambda>split. sl_fit api (base_estimator self) split y)
                  (map (\<lambda>(st, z). slice_last X st z) (sections s ?k)) \<noteq> []"
    using sections_nonempty [OF k] by simp
  have "ebind (parallel (map (\<lambda>split. sl_fit api (base_estimator self) split y)
                  (map (\<lambda>(st, z). slice_last X st z) (sections s ?k)))) (\<lambda>es. Inr (concat es))
      = parallel (map ?g [0..<s])"
    unfolding chunks using parallel_concat [of ?g "map (\<lambda>(st, z). [st..<st + z]) (sections s ?k)"]
    by (simp only: cc)
  then have "ebind (parallel (map (\<lambda>split. sl_fit api (base_estimator self) split y)
                  (map (\<lambda>(st, z). slice_last X st z) (sections s ?k)))) (concatenate_objects api)
      = parallel (map ?g [0..<s])"
    unfolding ebind_concatenate_plain [OF plain ne] .
  then show ?thesis
    using chk sp by (simp add: SearchLight_fit_def Let_def split: sum.splits)
qed

text \<open>
  What holds of \<open>fit\<close> for models that are no sequences: for X of shape (n, f, s), after a
  fit that returns, the estimator sequence has length \<open>s\<close> and its element \<open>i\<close> is what
  \<open>fit\<close> makes of a clone of the prototype on the slice \<open>X[..., i]\<close> and \<open>y\<close>, for every
  number of jobs.
\<close>

theorem fit_cardinality_of_plain_models:
  assumes "shape X = [n, f, s]" and "SearchLight_fit api self X y = (Inr (), self')"
    and "\<forall>e. sequence_items api e = None"
  shows "\<exists>ests. estimators_attr self' = Some ests \<and> length ests = s
     \<and> (\<forall>i<s. \<exists>Xi. index_last X i = Inr Xi
            \<and> est_fit api (clone api (base_estimator self)) Xi y = Inr (ests ! i))"
proof -
  have chk: "check_Xy X (Some y) = Inr ()"
    using assms(2) by (auto simp: SearchLight_fit_def split: sum.splits)
  have k: "0 < parallel_func api (n_jobs self)"
  proof (rule ccontr)
    assume "\<not> 0 < parallel_func api (n_jobs self)"
    then have "array_split_last X (parallel_func api (n_jobs self))
        = Inl (ValueError ''number sections must be larger than 0.'')"
      using assms(1) by (simp add: array_split_last_def)
    then show False
      using assms(2) chk by (simp add: SearchLight_fit_def Let_def)
  qed
  let ?g = "fit_slice api (base_estimator self) X y"
  from SearchLight_fit_slices [OF assms(1) chk k assms(3)] assms(2)
  obtain ests where p: "parallel (map ?g [0..<s]) = Inr ests"
    and s': "self' = self\<lparr>estimators_attr := Some ests\<rparr>"
    by (auto split: sum.splits)
  from parallel_Inr [OF p] have len: "length ests = s"
    and each: "\<forall>i<s. ?g i = Inr (ests ! i)" by auto
  have "\<exists>Xi. index_last X i = Inr Xi
            \<and> est_fit api (clone api (base_estimator self)) Xi y = Inr (ests ! i)" if "i < s" for i
  proof -
    from each that have "?g i = Inr (ests ! i)" by simp
    then show ?thesis
      by (auto simp: fit_slice_def getattr_fit_def ebind_def split: sum.splits if_splits)
  qed
  with len s' show ?thesis by simp
qed

lemma toy_fit_X22:
  "SearchLight_fit toy_api (SearchLight_init (Toy [''fit'', ''predict''] 0) 2) X22 [1, 0]
     = (Inr (), \<lparr>base_estimator = Toy [''fit'', ''predict''] 0, n_jobs = 2,
                  estimators_attr = Some [Toy [''fit'', ''predict''] 5, Toy [''fit'', ''predict''] 7]\<rparr>)"
  by code_simp

theorem fit_cardinality_of_plain_models_witness:
  "shape X22 = [2, 1, 2]
   \<and> SearchLight_fit toy_api (SearchLight_init (Toy [''fit'', ''predict''] 0) 2) X22 [1, 0]
     = (Inr (), \<lparr>base_estimator = Toy [''fit'', ''predict''] 0, n_jobs = 2,
                  estimators_attr = Some [Toy [''fit'', ''predict''] 5, Toy [''fit'', ''predict''] 7]\<rparr>)
   \<and> (\<exists>ests. estimators_attr \<lparr>base_estimator = Toy [''fit'', ''predict''] 0, n_jobs = 2,
                  estimators_attr = Some [Toy [''fit'', ''predict''] 5, Toy [''fit'', ''predict''] 7]\<rparr>
               = Some ests \<and> length ests = 2
     \<and> (\<forall>i<2. \<exists>Xi. index_last X22 i = Inr Xi
            \<and> est_fit toy_api (clone toy_api (base_estimator (SearchLight_init (Toy [''fit'', ''predict''] 0) 2))) Xi [1, 0]
                = Inr (ests ! i)))"
proof -
  have h: "shape X22 = [2, 1, 2]" by (simp add: X22_def)
  have p: "\<forall>e. sequence_items toy_api e = None" by (simp add: toy_api_def)
  show ?thesis
    using h toy_fit_X22 fit_cardinality_of_plain_models [OF h toy_fit_X22 p]
    by blast
qed

text \<open>
  C8. As stated, for every model: after \<open>fit\<close> the estimator at index \<open>i\<close> is the clone of
  the prototype fitted on slice \<open>i\<close>. It fails for a prototype that is a sequence once it
  is fitted (an ensemble, with \<open>len\<close> and indexing over its members):
  \<open>np.concatenate\<close> unpacks each fitted clone into a row of its members. On the tensor
  of 2 samples, 1 feature and 2 slices the clones fitted on the slices are
  \<open>Bag True [4, 1]\<close> and \<open>Bag True [6, 1]\<close>; the estimator sequence after \<open>fit\<close> has
  length 2, but its entries are the arrays of the members, for one job as for two. They
  have no \<open>predict\<close>, so the fitted ensemble cannot be applied or scored, whereas the
  list of the fitted clones can.
\<close>

theorem fit_unpacks_sequence_estimators:
  "fit_slice bag_api (Bag False []) X22 [1, 0] 0 = Inr (Bag True [4, 1])
   \<and> fit_slice bag_api (Bag False []) X22 [1, 0] 1 = Inr (Bag True [6, 1])
   \<and> SearchLight_fit bag_api (SearchLight_init (Bag False []) 1) X22 [1, 0]
       = (Inr (), \<lparr>base_estimator = Bag False [], n_jobs = 1,
                    estimators_attr = Some [ObjArray [Member 4, Member 1], ObjArray [Member 6, Member 1]]\<rparr>)
   \<and> SearchLight_fit bag_api (SearchLight_init (Bag False []) 2) X22 [1, 0]
       = (Inr (), \<lparr>base_estimator = Bag False [], n_jobs = 2,
                    estimators_attr = Some [ObjArray [Member 4, Member 1], ObjArray [Member 6, Member 1]]\<rparr>)
   \<and> [ObjArray [Member 4, Member 1], ObjArray [Member 6, Member 1]] \<noteq> [Bag True [4, 1], Bag True [6, 1]]
   \<and> SearchLight_predict bag_api
        \<lparr>base_estimator = Bag False [], n_jobs = 1,
           estimators_attr = Some [ObjArray [Member 4, Member 1], ObjArray [Member 6, Member 1]]\<rparr> X22
       = Inl AttributeError
   \<and> SearchLight_score bag_api
        \<lparr>base_estimator = Bag False [], n_jobs = 1,
           estimators_attr = Some [ObjArray [Member 4, Member 1], ObjArray [Member 6, Member 1]]\<rparr> X22 [1, 0]
       = Inl AttributeError
   \<and> SearchLight_predict bag_api
        \<lparr>base_estimator = Bag False [], n_jobs = 1,
           estimators_attr = Some [Bag True [4, 1], Bag True [6, 1]]\<rparr> X22
       = Inr \<lparr>shape = [2, 2], dtype = DFloat, data = [6, 9, 8, 11]\<rparr>"
  by code_simp

subsection \<open>Cross-slice apply of one estimator\<close>

lemma take_drop_map_upt:
  "a + m \<le> N \<Longrightarrow> take m (drop a (map F [0..<N])) = map (\<lambda>k. F (a + k)) [0..<m]"
proof -
  assume le: "a + m \<le> N"
  have "take m (drop a (map F [0..<N])) = map F (take m (drop a [0..<N]))"
    by (simp add: take_map drop_map)
  also have "take m (drop a [0..<N]) = [a..<a + m]"
    using le by (simp add: take_upt)
  also have "map F [a..<a + m] = map (\<lambda>k. F (a + k)) [0..<m]"
    by (simp add: map_upt_shift)
  finally show ?thesis .
qed

lemma row_bound: "i < n \<Longrightarrow> i * f + f \<le> n * (f::nat)"
proof -
  assume "i < n"
  then have "Suc i \<le> n" by simp
  then have "Suc i * f \<le> n * f" by (rule mult_le_mono1)
  then show ?thesis by (simp add: add.commute)
qed

lemma matrix_rows_index_last:
  assumes "shape X = [n, f, s]" and "j < s"
  shows "\<exists>Xj. index_last X j = Inr Xj \<and> shape Xj = [n, f] \<and> valid Xj \<and> dtype Xj = dtype X
           \<and> matrix_rows Xj = map (\<lambda>i. tensor_row X i j) [0..<n]"
proof -
  let ?Xj = "\<lparr>shape = [n, f], dtype = dtype X, data = map (\<lambda>p. data X ! (p * s + j)) [0..<n * f]\<rparr>"
  have e: "index_last X j = Inr ?Xj" using assms by (simp add: index_last_def)
  have "take f (drop (i * f) (map (\<lambda>p. data X ! (p * s + j)) [0..<n * f])) = tensor_row X i j"
    if "i < n" for i
    using take_drop_map_upt [OF row_bound [OF that], of f "\<lambda>p. data X ! (p * s + j)"] assms(1)
    by (simp add: tensor_row_def)
  then have "matrix_rows ?Xj = map (\<lambda>i. tensor_row X i j) [0..<n]"
    by (simp add: matrix_rows_def)
  with e show ?thesis by (simp add: valid_def)
qed

lemma stack_index:
  assumes "i < n" and "j < s" and "k < (f::nat)"
  shows "(k * n + i) * s + j < f * n * s"
    and "((k * n + i) * s + j) mod s = j"
    and "((k * n + i) * s + j) div s = k * n + i"
    and "(k * n + i) mod n = i"
    and "(k * n + i) div n = k"
proof -
  have "(k * n + i) * s + j < (k * n + i) * s + s" using assms(2) by simp
  also have "\<dots> = (k * n + i + 1) * s" by (simp add: algebra_simps)
  also have "\<dots> \<le> (f * n) * s"
  proof (rule mult_le_mono1)
    have "k * n + i + 1 \<le> k * n + n" using assms(1) by simp
    also have "\<dots> = (k + 1) * n" by (simp add: algebra_simps)
    also have "\<dots> \<le> f * n" using assms(3) by (intro mult_le_mono1) simp
    finally show "k * n + i + 1 \<le> f * n" .
  qed
  finally show "(k * n + i) * s + j < f * n * s" .
  show "((k * n + i) * s + j) mod s = j" using assms(2) by simp
  show "((k * n + i) * s + j) div s = k * n + i" using assms(2) by simp
  show "(k * n + i) mod n = i" using assms(1) by simp
  show "(k * n + i) div n = k" using assms(1) by simp
qed

lemma gl_stack_rows:
  assumes X: "shape X = [n, f, s]"
  shows "\<exists>Xs. gl_stack X n f s = Inr Xs \<and> shape Xs = [n * s, f] \<and> valid Xs
           \<and> matrix_rows Xs = map (\<lambda>q. tensor_row X (q div s) (q mod s)) [0..<n * s]"
proof -
  let ?T = "map (\<lambda>q. data X ! ((((q div s) mod n) * f + (q div s) div n) * s + q mod s)) [0..<f * n * s]"
  let ?S = "map (\<lambda>q. ?T ! ((q mod f) * (n * s) + q div f)) [0..<n * s * f]"
  let ?Xs = "\<lparr>shape = [n * s, f], dtype = dtype X, data = ?S\<rparr>"
  have e: "gl_stack X n f s = Inr ?Xs"
    using X by (simp add: gl_stack_def transpose_102_def np_reshape_def matrix_T_def mult.assoc)
  have row: "take f (drop (q * f) ?S) = tensor_row X (q div s) (q mod s)" if q: "q < n * s" for q
  proof -
    have s0: "0 < s" using q by (cases s) auto
    let ?i = "q div s" and ?j = "q mod s"
    have i: "?i < n" using q s0 by (simp add: less_mult_imp_div_less)
    have j: "?j < s" using s0 by simp
    have qij: "q = ?i * s + ?j" by simp
    have "take f (drop (q * f) ?S) = map (\<lambda>k. ?T ! (((q * f + k) mod f) * (n * s) + (q * f + k) div f)) [0..<f]"
      by (rule take_drop_map_upt [OF row_bound [OF q]])
    also have "\<dots> = map (\<lambda>k. data X ! ((?i * f + k) * s + ?j)) [0..<f]"
    proof (rule map_cong [OF refl])
      fix k assume "k \<in> set [0..<f]"
      then have k: "k < f" by simp
      have a: "(q * f + k) mod f = k" "(q * f + k) div f = q" using k by simp_all
      have idx: "k * (n * s) + q = (k * n + ?i) * s + ?j"
        by (simp add: algebra_simps)
      note st = stack_index [OF i j k]
      have "?T ! (k * (n * s) + q) = data X ! ((?i * f + k) * s + ?j)"
        unfolding idx using st(1) by (simp add: st(2-5) del: mod_mult_self3 div_mult_self3)
      then show "?T ! (((q * f + k) mod f) * (n * s) + (q * f + k) div f) = data X ! ((?i * f + k) * s + ?j)"
        by (simp only: a)
    qed
    also have "\<dots> = tensor_row X ?i ?j" using X by (simp add: tensor_row_def)
    finally show ?thesis .
  qed
  have "matrix_rows ?Xs = map (\<lambda>q. tensor_row X (q div s) (q mod s)) [0..<n * s]"
    using row by (simp add: matrix_rows_def)
  with e show ?thesis by (simp add: valid_def)
qed


lemma length_concat_const:
  "(\<And>x. length (h x) = T) \<Longrightarrow> length (concat (map h xs)) = length xs * T"
  by (induction xs) auto

lemma block_of_concat:
  "(\<And>x. length (h x) = T) \<Longrightarrow> i < length xs \<Longrightarrow> take T (drop (i * T) (concat (map h xs))) = h (xs ! i)"
proof (induction xs arbitrary: i)
  case Nil
  then show ?case by simp
next
  case (Cons x xs)
  show ?case
  proof (cases i)
    case 0
    then show ?thesis using Cons.prems(1) [of x] by simp
  next
    case (Suc i')
    have "drop (i * T) (h x @ concat (map h xs)) = drop (i' * T) (concat (map h xs))"
      using Suc Cons.prems(1) [of x] by simp
    then show ?thesis
      using Cons.IH [of i'] Cons.prems Suc by simp
  qed
qed

lemma map_div_mod_upt:
  "map (\<lambda>q. F (q div s) (q mod s)) [0..<n * s] = concat (map (\<lambda>i. map (F i) [0..<s]) [0..<n])"
proof (induction n)
  case 0
  show ?case by simp
next
  case (Suc n)
  have "Suc n * s = n * s + s" by simp
  then have sp: "[0..<Suc n * s] = [0..<n * s] @ [n * s..<n * s + s]"
    using upt_add_eq_append [of 0 "n * s" s] by (simp only: le0)
  have "map (\<lambda>q. F (q div s) (q mod s)) [n * s..<n * s + s]
      = map (\<lambda>j. F ((n * s + j) div s) ((n * s + j) mod s)) [0..<s]"
    by (rule map_upt_shift [symmetric])
  also have "\<dots> = map (F n) [0..<s]"
    by (rule map_cong [OF refl]) simp
  finally have blk: "map (\<lambda>q. F (q div s) (q mod s)) [n * s..<n * s + s] = map (F n) [0..<s]" .
  show ?case unfolding sp by (simp add: Suc blk)
qed

lemma parallel_map_Inr: "parallel (map (\<lambda>x. Inr (h x)) xs) = Inr (map h xs)"
  by (induction xs) auto


lemma sum_list_const: "(\<And>b. b \<in> set arrs \<Longrightarrow> h b = c) \<Longrightarrow> sum_list (map h arrs) = length arrs * (c::nat)"
  by (induction arrs) auto

lemma np_concatenate_uniform:
  assumes ne: "arrs \<noteq> []" and sh: "\<forall>b\<in>set arrs. shape b = shp \<and> dtype b = d"
    and ax: "axis < length shp"
  shows "np_concatenate arrs axis =
     Inr \<lparr>shape = take axis shp @ [length arrs * shp ! axis] @ drop (Suc axis) shp, dtype = d,
          data = concat (map (\<lambda>outer. concat (map (\<lambda>b.
                     take (prod_list (drop axis shp)) (drop (outer * prod_list (drop axis shp)) (data b))) arrs))
                   [0..<prod_list (take axis shp)])\<rparr>"
proof -
  obtain a rest where ar: "arrs = a # rest" using ne by (cases arrs) auto
  have a: "shape a = shp" "dtype a = d" using sh ar by auto
  have rest: "\<forall>b\<in>set rest. shape b = shp \<and> dtype b = d" using sh ar by auto
  have c1: "list_ex (\<lambda>b. ndim b \<noteq> ndim a) rest = False"
    using rest a(1) by (auto simp: list_ex_iff ndim_def)
  have c2: "(ndim a \<le> axis) = False" using ax a(1) by (simp add: ndim_def)
  have c3: "list_ex (\<lambda>b. take axis (shape b) \<noteq> take axis (shape a)
                   \<or> drop (Suc axis) (shape b) \<noteq> drop (Suc axis) (shape a)) rest = False"
    using rest a(1) by (auto simp: list_ex_iff)
  have sm: "sum_list (map (\<lambda>b. shape b ! axis) (a # rest)) = length (a # rest) * shp ! axis"
    by (rule sum_list_const) (use sh ar in auto)
  have dt: "(if list_ex (\<lambda>b. dtype b = DFloat) (a # rest) then DFloat else DInt) = d"
    using rest a(2) by (cases d) (auto simp: list_ex_iff)
  have cv: "map (\<lambda>b. map (astype (dtype b) d) (F b)) (a # rest) = map F (a # rest)"
    for F :: "ndarray \<Rightarrow> rat list"
    by (rule map_cong [OF refl]) (use sh ar in \<open>auto simp: map_astype_same\<close>)
  have dm: "map (\<lambda>b. take (prod_list (drop axis (shape b)))
                 (drop (outer * prod_list (drop axis (shape b))) (data b))) (a # rest)
          = map (\<lambda>b. take (prod_list (drop axis shp)) (drop (outer * prod_list (drop axis shp)) (data b))) (a # rest)"
    for outer
    by (rule map_cong [OF refl]) (use sh ar in auto)
  have "np_concatenate (a # rest) axis =
     Inr \<lparr>shape = take axis (shape a) @ [sum_list (map (\<lambda>b. shape b ! axis) (a # rest))]
                             @ drop (Suc axis) (shape a),
          dtype = (if list_ex (\<lambda>b. dtype b = DFloat) (a # rest) then DFloat else DInt),
          data = concat (map (\<lambda>outer. concat (map (\<lambda>b.
                               map (astype (dtype b)
                                      (if list_ex (\<lambda>b. dtype b = DFloat) (a # rest) then DFloat else DInt))
                                 (take (prod_list (drop axis (shape b)))
                                    (drop (outer * prod_list (drop axis (shape b))) (data b)))) (a # rest)))
                             [0..<prod_list (take axis (shape a))])\<rparr>"
    unfolding np_concatenate_def list.case c1 c2 c3 if_False ..
  then show ?thesis
    unfolding sm dt cv dm a(1) ar .
qed


lemma concat_concat_map: "concat (concat (map h xs)) = concat (map (\<lambda>x. concat (h x)) xs)"
  by (induction xs) auto

lemma row_independent_call:
  assumes "row_independent api est method g tshape d" and "shape M = [r, c]" and "valid M"
  shows "est_call api est method M
           = Inr \<lparr>shape = r # tshape, dtype = d, data = concat (map g (matrix_rows M))\<rparr>"
  using assms unfolding row_independent_def by blast

lemma row_independent_getattr:
  "row_independent api est method g tshape d \<Longrightarrow> py_getattr api est method = Inr (est_call api est method)"
  by (simp add: row_independent_def py_getattr_def)

lemma row_independent_length:
  "row_independent api est method g tshape d \<Longrightarrow> length (g row) = prod_list tshape"
  by (simp add: row_independent_def)

lemma gl_unstack_rows:
  assumes "length ys = n * s * prod_list tshape"
  shows "gl_unstack \<lparr>shape = (n * s) # tshape, dtype = d, data = ys\<rparr> n s
           = Inr \<lparr>shape = [n, s] @ tshape, dtype = d, data = ys\<rparr>"
proof (cases "length tshape = 1")
  case True
  then obtain t where "tshape = [t]" by (cases tshape) auto
  then show ?thesis using assms by (simp add: gl_unstack_def ndim_def np_reshape_def)
next
  case False
  then show ?thesis using assms by (simp add: gl_unstack_def ndim_def np_reshape_def)
qed

lemma gl_apply_row_independent:
  assumes ri: "row_independent api est method g tshape d" and X: "shape X = [n, f, s]"
  shows "gl_apply api est X method =
     Inr \<lparr>shape = [n, s] @ tshape, dtype = d,
          data = concat (map (\<lambda>q. g (tensor_row X (q div s) (q mod s))) [0..<n * s])\<rparr>"
proof -
  from gl_stack_rows [OF X] obtain Xs where st: "gl_stack X n f s = Inr Xs"
    and sh: "shape Xs = [n * s, f]" and v: "valid Xs"
    and rows: "matrix_rows Xs = map (\<lambda>q. tensor_row X (q div s) (q mod s)) [0..<n * s]"
    by blast
  let ?ys = "concat (map (\<lambda>q. g (tensor_row X (q div s) (q mod s))) [0..<n * s])"
  have call: "est_call api est method Xs = Inr \<lparr>shape = (n * s) # tshape, dtype = d, data = ?ys\<rparr>"
    using row_independent_call [OF ri sh v] by (simp add: rows comp_def)
  have len: "length ?ys = n * s * prod_list tshape"
    using length_concat_const [of "\<lambda>q. g (tensor_row X (q div s) (q mod s))" "prod_list tshape" "[0..<n * s]"]
      row_independent_length [OF ri] by simp
  show ?thesis
    using X st call gl_unstack_rows [OF len] row_independent_getattr [OF ri]
    by (simp add: gl_apply_def)
qed

lemma gl_apply_per_slice_row_independent:
  assumes ri: "row_independent api est method g tshape d" and X: "shape X = [n, f, s]" and s: "0 < s"
  shows "gl_apply_per_slice api est X method =
     Inr \<lparr>shape = [n, s] @ tshape, dtype = d,
          data = concat (map (\<lambda>i. concat (map (\<lambda>j. g (tensor_row X i j)) [0..<s])) [0..<n])\<rparr>"
proof -
  let ?T = "prod_list tshape"
  let ?R = "\<lambda>j. \<lparr>shape = n # tshape, dtype = d,
                 data = concat (map (\<lambda>i. g (tensor_row X i j)) [0..<n])\<rparr>"
  have one: "ebind (index_last X j) (est_call api est method) = Inr (?R j)" if "j < s" for j
  proof -
    from matrix_rows_index_last [OF X that] obtain Xj where e: "index_last X j = Inr Xj"
      and sh: "shape Xj = [n, f]" and v: "valid Xj"
      and rows: "matrix_rows Xj = map (\<lambda>i. tensor_row X i j) [0..<n]" by blast
    show ?thesis
      using row_independent_call [OF ri sh v] e by (simp add: rows comp_def)
  qed
  have "map (\<lambda>jj. ebind (index_last X jj) (est_call api est method)) [0..<s] = map (\<lambda>j. Inr (?R j)) [0..<s]"
    by (rule map_cong [OF refl]) (simp add: one)
  then have par: "parallel (map (\<lambda>jj. ebind (index_last X jj) (est_call api est method)) [0..<s])
      = Inr (map ?R [0..<s])"
    by (simp only: parallel_map_Inr)
  let ?arrs = "map expand_axis1 (map ?R [0..<s])"
  have ne: "?arrs \<noteq> []" using s by simp
  have un: "\<forall>b\<in>set ?arrs. shape b = n # 1 # tshape \<and> dtype b = d"
    by (auto simp: expand_axis1_def)
  have blk: "take ?T (drop (outer * ?T) (concat (map (\<lambda>i. g (tensor_row X i j)) [0..<n])))
      = g (tensor_row X outer j)" if "outer < n" for outer j
    using block_of_concat [of "\<lambda>i. g (tensor_row X i j)" ?T outer "[0..<n]"]
      row_independent_length [OF ri] that by simp
  have "concat (map (\<lambda>b. take ?T (drop (outer * ?T) (data b))) ?arrs)
        = concat (map (\<lambda>j. g (tensor_row X outer j)) [0..<s])" if "outer < n" for outer
    using blk [OF that] by (simp add: comp_def expand_axis1_def)
  then have "map (\<lambda>outer. concat (map (\<lambda>b. take ?T (drop (outer * ?T) (data b))) ?arrs)) [0..<n]
        = map (\<lambda>i. concat (map (\<lambda>j. g (tensor_row X i j)) [0..<s])) [0..<n]"
    by (intro map_cong [OF refl]) simp
  then have dat: "concat (map (\<lambda>outer. concat (map (\<lambda>b. take ?T (drop (outer * ?T) (data b))) ?arrs)) [0..<n])
      = concat (map (\<lambda>i. concat (map (\<lambda>j. g (tensor_row X i j)) [0..<s])) [0..<n])"
    by (rule arg_cong)
  have pr: "prod_list (drop 1 (n # 1 # tshape)) = ?T" "prod_list (take 1 (n # 1 # tshape)) = n"
    "take 1 (n # 1 # tshape) @ [length ?arrs * (n # 1 # tshape) ! 1] @ drop (Suc 1) (n # 1 # tshape)
       = [n, s] @ tshape"
    by simp_all
  have cc: "np_concatenate ?arrs 1 =
     Inr \<lparr>shape = [n, s] @ tshape, dtype = d,
          data = concat (map (\<lambda>i. concat (map (\<lambda>j. g (tensor_row X i j)) [0..<s])) [0..<n])\<rparr>"
    using np_concatenate_uniform [OF ne un, of 1] unfolding pr dat by simp
  show ?thesis
    using X par cc row_independent_getattr [OF ri]
    by (simp add: gl_apply_per_slice_def)
qed

text \<open>
  C7. For an estimator whose method is row-independent and a tensor with at least one
  slice, the body of \<open>_gl_transform\<close> (stack the sample and slice axes, call the method
  once, reshape) returns exactly what looping over the slices, calling the method on
  each and concatenating the results along the slice axis returns: the tensor whose
  block \<open>[i, j]\<close> is the method's value on \<open>X[i, :, j]\<close>.
\<close>

theorem flatten_equals_per_slice:
  assumes "row_independent api est method g tshape d" and "shape X = [n, f, s]" and "0 < s"
  shows "gl_apply api est X method = gl_apply_per_slice api est X method
     \<and> gl_apply api est X method =
         Inr \<lparr>shape = [n, s] @ tshape, dtype = d,
              data = concat (map (\<lambda>i. concat (map (\<lambda>j. g (tensor_row X i j)) [0..<s])) [0..<n])\<rparr>"
proof -
  have "concat (map (\<lambda>q. g (tensor_row X (q div s) (q mod s))) [0..<n * s])
      = concat (map (\<lambda>i. concat (map (\<lambda>j. g (tensor_row X i j)) [0..<s])) [0..<n])"
  proof -
    have "map (\<lambda>q. g (tensor_row X (q div s) (q mod s))) [0..<n * s]
        = concat (map (\<lambda>i. map (\<lambda>j. g (tensor_row X i j)) [0..<s]) [0..<n])"
      by (rule map_div_mod_upt)
    then show ?thesis by (simp add: concat_concat_map comp_def)
  qed
  then show ?thesis
    using gl_apply_row_independent [OF assms(1,2)] gl_apply_per_slice_row_independent [OF assms]
    by simp
qed

lemma toy_proba_row_independent:
  "row_independent toy_api (Toy [''predict_proba''] c) ''predict_proba'' (\<lambda>r. [sum_list r, c]) [2] DFloat"
  by (simp add: row_independent_def toy_api_def toy_call_def)

theorem flatten_equals_per_slice_witness:
  "row_independent toy_api (Toy [''predict_proba''] 1) ''predict_proba'' (\<lambda>r. [sum_list r, 1]) [2] DFloat
   \<and> shape X22 = [2, 1, 2] \<and> (0::nat) < 2
   \<and> gl_apply toy_api (Toy [''predict_proba''] 1) X22 ''predict_proba''
       = gl_apply_per_slice toy_api (Toy [''predict_proba''] 1) X22 ''predict_proba''
   \<and> gl_apply toy_api (Toy [''predict_proba''] 1) X22 ''predict_proba''
       = Inr \<lparr>shape = [2, 2, 2], dtype = DFloat, data = [1, 1, 2, 1, 3, 1, 4, 1]\<rparr>"
proof -
  have h1: "row_independent toy_api (Toy [''predict_proba''] 1) ''predict_proba'' (\<lambda>r. [sum_list r, 1]) [2] DFloat"
    by (rule toy_proba_row_independent)
  have h2: "shape X22 = [2, 1, 2]" by (simp add: X22_def)
  have h3: "(0::nat) < 2" by simp
  have v: "gl_apply toy_api (Toy [''predict_proba''] 1) X22 ''predict_proba''
       = Inr \<lparr>shape = [2, 2, 2], dtype = DFloat, data = [1, 1, 2, 1, 3, 1, 4, 1]\<rparr>"
    by code_simp
  show ?thesis
    using h1 h2 v flatten_equals_per_slice [OF h1 h2 h3]
    by simp
qed

subsection \<open>Diagonal of the cross-slice apply\<close>

lemma broadcastable_same: "broadcastable vs vs"
  by (induction vs) auto

lemma bc_index_same: "q < prod_list vs \<Longrightarrow> bc_index vs vs q = q"
proof (induction vs arbitrary: q)
  case Nil
  then show ?case by simp
next
  case (Cons v vs)
  have "q < prod_list vs * v" using Cons.prems by (simp add: mult.commute)
  then have "q div v < prod_list vs" by (rule less_mult_imp_div_less)
  then have ih: "bc_index vs vs (q div v) = q div v" by (rule Cons.IH)
  show ?case
  proof (cases "v = 1")
    case True
    then show ?thesis using ih by simp
  next
    case False
    then show ?thesis using ih by simp
  qed
qed

lemma prod_list_rev_nat: "prod_list (rev xs) = prod_list (xs::nat list)"
  by (induction xs) (auto simp: mult.commute)

lemma broadcast_to_same:
  assumes "shape y = shp" and "length (data y) = prod_list shp"
  shows "broadcast_to shp y = Inr (data y)"
proof -
  have "map (\<lambda>q. data y ! bc_index (rev shp) (rev shp) q) [0..<prod_list shp]
      = map (\<lambda>q. data y ! q) [0..<prod_list shp]"
    by (rule map_cong [OF refl]) (simp add: bc_index_same prod_list_rev_nat)
  also have "\<dots> = data y" unfolding assms(2) [symmetric] by (rule map_nth)
  finally show ?thesis using assms(1) by (simp add: broadcast_to_def broadcastable_same)
qed

lemma concat_singletons:
  "(\<And>x. length (g x) = Suc 0) \<Longrightarrow> concat (map g xs) = map (\<lambda>x. hd (g x)) xs"
proof (induction xs)
  case Nil
  show ?case by simp
next
  case (Cons x xs)
  have "length (g x) = Suc 0" by (rule Cons.prems)
  then have "g x = [hd (g x)]" by (cases "g x") auto
  then show ?case using Cons by simp
qed

lemma setitem_1_column:
  assumes k: "k < s" and cv: "\<And>i. i < n \<Longrightarrow> astype d DFloat (u i) = v i k"
  shows "setitem_1 \<lparr>shape = [n, s], dtype = DFloat,
                     data = map (\<lambda>q. if q mod s < k then v (q div s) (q mod s) else 0) [0..<n * s]\<rparr> k
            \<lparr>shape = [n], dtype = d, data = map u [0..<n]\<rparr>
       = Inr \<lparr>shape = [n, s], dtype = DFloat,
              data = map (\<lambda>q. if q mod s < Suc k then v (q div s) (q mod s) else 0) [0..<n * s]\<rparr>"
proof -
  let ?y = "\<lparr>shape = [n], dtype = d, data = map u [0..<n]\<rparr>"
  let ?old = "map (\<lambda>q. if q mod s < k then v (q div s) (q mod s) else (0::rat)) [0..<n * s]"
  have bc: "broadcast_to [n] ?y = Inr (map u [0..<n])"
    using broadcast_to_same [of ?y "[n]"] by simp
  have eq: "map (\<lambda>q. if q mod s = k then astype d DFloat (map u [0..<n] ! (q div s)) else ?old ! q) [0..<n * s]
      = map (\<lambda>q. if q mod s < Suc k then v (q div s) (q mod s) else 0) [0..<n * s]"
  proof (rule map_cong [OF refl])
    fix q assume "q \<in> set [0..<n * s]"
    then have q: "q < n * s" by simp
    then have i: "q div s < n" by (simp add: less_mult_imp_div_less)
    have o: "?old ! q = (if q mod s < k then v (q div s) (q mod s) else 0)"
      using q by simp
    have val: "astype d DFloat (map u [0..<n] ! (q div s)) = v (q div s) k"
      using i cv [OF i] by simp
    show "(if q mod s = k then astype d DFloat (map u [0..<n] ! (q div s)) else ?old ! q)
        = (if q mod s < Suc k then v (q div s) (q mod s) else 0)"
      unfolding o val by (auto simp: less_Suc_eq)
  qed
  show ?thesis
    using k bc by (simp add: setitem_1_def eq cong: if_cong del: map_eq_conv)
qed

lemma setitem_1_plane:
  assumes k: "k < t" and cv: "\<And>q. q < n * s \<Longrightarrow> astype d DFloat (u q) = w (q div s) k (q mod s)"
  shows "setitem_1 \<lparr>shape = [n, t, s], dtype = DFloat,
                     data = map (\<lambda>q. if (q div s) mod t < k then w (q div (t * s)) ((q div s) mod t) (q mod s) else 0)
                                [0..<n * t * s]\<rparr> k
            \<lparr>shape = [n, s], dtype = d, data = map u [0..<n * s]\<rparr>
       = Inr \<lparr>shape = [n, t, s], dtype = DFloat,
              data = map (\<lambda>q. if (q div s) mod t < Suc k then w (q div (t * s)) ((q div s) mod t) (q mod s) else 0)
                         [0..<n * t * s]\<rparr>"
proof -
  let ?y = "\<lparr>shape = [n, s], dtype = d, data = map u [0..<n * s]\<rparr>"
  let ?old = "map (\<lambda>q. if (q div s) mod t < k then w (q div (t * s)) ((q div s) mod t) (q mod s) else (0::rat))
                [0..<n * t * s]"
  have bc: "broadcast_to [n, s] ?y = Inr (map u [0..<n * s])"
    using broadcast_to_same [of ?y "[n, s]"] by simp
  have eq: "map (\<lambda>q. if (q div s) mod t = k
                  then astype d DFloat (map u [0..<n * s] ! ((q div (t * s)) * s + q mod s))
                  else ?old ! q) [0..<n * t * s]
      = map (\<lambda>q. if (q div s) mod t < Suc k then w (q div (t * s)) ((q div s) mod t) (q mod s) else 0)
            [0..<n * t * s]"
  proof (rule map_cong [OF refl])
    fix q assume "q \<in> set [0..<n * t * s]"
    then have q: "q < n * t * s" by simp
    then have s0: "0 < s" by (cases s) auto
    have "q < n * (t * s)" using q by (simp add: mult.assoc)
    then have i: "q div (t * s) < n" by (simp add: less_mult_imp_div_less)
    have j: "q mod s < s" using s0 by simp
    have "q div (t * s) * s + q mod s < q div (t * s) * s + s" using j by simp
    also have "\<dots> = Suc (q div (t * s)) * s" by simp
    also have "\<dots> \<le> n * s" using i by (intro mult_le_mono1) simp
    finally have lt: "q div (t * s) * s + q mod s < n * s" .
    have dv: "(q div (t * s) * s + q mod s) div s = q div (t * s)" using j by simp
    have md: "(q div (t * s) * s + q mod s) mod s = q mod s" using j by simp
    have val: "astype d DFloat (map u [0..<n * s] ! ((q div (t * s)) * s + q mod s))
        = w (q div (t * s)) k (q mod s)"
      using lt cv [OF lt] unfolding dv md by simp
    have o: "?old ! q = (if (q div s) mod t < k then w (q div (t * s)) ((q div s) mod t) (q mod s) else 0)"
      using q by simp
    show "(if (q div s) mod t = k
            then astype d DFloat (map u [0..<n * s] ! ((q div (t * s)) * s + q mod s))
            else ?old ! q)
        = (if (q div s) mod t < Suc k then w (q div (t * s)) ((q div s) mod t) (q mod s) else 0)"
      unfolding o val by (auto simp: less_Suc_eq)
  qed
  show ?thesis
    using k bc by (simp add: setitem_1_def eq cong: if_cong del: map_eq_conv)
qed

lemma map_const_upt: "map (\<lambda>q. c) [0..<N] = replicate N c"
  by (simp add: map_replicate_const)

lemma row_independent_vector:
  assumes ri: "row_independent api est method g [] d" and sh: "shape M = [r, c]" and v: "valid M"
  shows "est_call api est method M
           = Inr \<lparr>shape = [r], dtype = d, data = map (\<lambda>row. hd (g row)) (matrix_rows M)\<rparr>"
proof -
  have "\<And>row. length (g row) = Suc 0" using row_independent_length [OF ri] by simp
  then have "concat (map g (matrix_rows M)) = map (\<lambda>row. hd (g row)) (matrix_rows M)"
    by (rule concat_singletons)
  then show ?thesis using row_independent_call [OF ri sh v] by simp
qed

lemma sl_transform_loop_step:
  fixes G :: "nat \<Rightarrow> rat list \<Rightarrow> rat list" and D :: "nat \<Rightarrow> dtype"
  defines "P \<equiv> \<lambda>X n s k. \<lparr>shape = [n, s], dtype = DFloat,
              data = map (\<lambda>q. if q mod s < k
                                then astype (D (q mod s)) DFloat (hd (G (q mod s) (tensor_row X (q div s) (q mod s))))
                                else 0)
                         [0..<n * s]\<rparr>"
  assumes X: "shape X = [n, f, s]" and k: "k < s"
    and ri: "row_independent api est method (G k) [] (D k)"
  shows "sl_transform_loop api X method (if k = 0 then None else Some (P X n s k)) ((k, est) # rest)
       = sl_transform_loop api X method (Some (P X n s (Suc k))) rest"
proof -
  from matrix_rows_index_last [OF X k] obtain Xk where e: "index_last X k = Inr Xk"
    and sh: "shape Xk = [n, f]" and v: "valid Xk"
    and rows: "matrix_rows Xk = map (\<lambda>i. tensor_row X i k) [0..<n]" by blast
  let ?y = "\<lparr>shape = [n], dtype = D k, data = map (\<lambda>i. hd (G k (tensor_row X i k))) [0..<n]\<rparr>"
  have call: "est_call api est method Xk = Inr ?y"
    using row_independent_vector [OF ri sh v] by (simp add: rows comp_def)
  have init: "sl_init_pred ?y X = Inr (P X n s 0)"
    using X by (simp add: sl_init_pred_def ndim_def np_zeros_def P_def map_const_upt)
  have st: "setitem_1 (P X n s k) k ?y = Inr (P X n s (Suc k))"
    unfolding P_def
    using setitem_1_column [where k = k and s = s and n = n and d = "D k"
        and u = "\<lambda>i. hd (G k (tensor_row X i k))"
        and v = "\<lambda>i j. astype (D j) DFloat (hd (G j (tensor_row X i j)))", OF k]
    by simp
  show ?thesis
  proof (cases "k = 0")
    case True
    then show ?thesis
      using e call init st row_independent_getattr [OF ri] by simp
  next
    case False
    then show ?thesis
      using e call st row_independent_getattr [OF ri] by simp
  qed
qed

lemma sl_transform_loop_columns:
  fixes G :: "nat \<Rightarrow> rat list \<Rightarrow> rat list" and D :: "nat \<Rightarrow> dtype"
  defines "P \<equiv> \<lambda>X n s k. \<lparr>shape = [n, s], dtype = DFloat,
              data = map (\<lambda>q. if q mod s < k
                                then astype (D (q mod s)) DFloat (hd (G (q mod s) (tensor_row X (q div s) (q mod s))))
                                else 0)
                         [0..<n * s]\<rparr>"
  assumes X: "shape X = [n, f, s]" and len: "length ests = s"
    and ri: "\<And>j. j < s \<Longrightarrow> row_independent api (ests ! j) method (G j) [] (D j)"
    and k: "k \<le> s"
  shows "sl_transform_loop api X method (if k = 0 then None else Some (P X n s k)) (enumerate k (drop k ests))
       = Inr (if s = 0 then None else Some (P X n s s))"
  using k
proof (induction "s - k" arbitrary: k)
  case 0
  then have "k = s" by simp
  then show ?case using len by simp
next
  case (Suc m)
  then have k: "k < s" and m: "m = s - Suc k" and k': "Suc k \<le> s" by simp_all
  have dr: "drop k ests = ests ! k # drop (Suc k) ests"
    using k len by (simp add: Cons_nth_drop_Suc)
  have "sl_transform_loop api X method (if k = 0 then None else Some (P X n s k)) (enumerate k (drop k ests))
      = sl_transform_loop api X method (Some (P X n s (Suc k))) (enumerate (Suc k) (drop (Suc k) ests))"
    unfolding dr enumerate_simps P_def
    by (rule sl_transform_loop_step [where G = G and D = D and k = k, OF X k ri [OF k]])
  also have "\<dots> = Inr (if s = 0 then None else Some (P X n s s))"
    using Suc.hyps(1) [OF m k'] by simp
  finally show ?case .
qed

lemma gl_transform_loop_step:
  fixes G :: "nat \<Rightarrow> rat list \<Rightarrow> rat list" and D :: "nat \<Rightarrow> dtype"
  defines "Q \<equiv> \<lambda>X n t s k. \<lparr>shape = [n, t, s], dtype = DFloat,
              data = map (\<lambda>q. if (q div s) mod t < k
                                then astype (D ((q div s) mod t)) DFloat
                                       (hd (G ((q div s) mod t) (tensor_row X (q div (t * s)) (q mod s))))
                                else 0)
                         [0..<n * t * s]\<rparr>"
  assumes X: "shape X = [n, f, s]" and k: "k < t"
    and ri: "row_independent api est method (G k) [] (D k)"
  shows "gl_transform_loop api X method t (if k = 0 then None else Some (Q X n t s k)) ((k, est) # rest)
       = gl_transform_loop api X method t (Some (Q X n t s (Suc k))) rest"
proof -
  let ?y = "\<lparr>shape = [n, s], dtype = D k,
             data = map (\<lambda>q. hd (G k (tensor_row X (q div s) (q mod s)))) [0..<n * s]\<rparr>"
  have "\<And>row. length (G k row) = Suc 0" using row_independent_length [OF ri] by simp
  then have "concat (map (\<lambda>q. G k (tensor_row X (q div s) (q mod s))) [0..<n * s])
      = map (\<lambda>q. hd (G k (tensor_row X (q div s) (q mod s)))) [0..<n * s]"
    by (rule concat_singletons [of "\<lambda>q. G k (tensor_row X (q div s) (q mod s))"])
  then have call: "gl_apply api est X method = Inr ?y"
    using gl_apply_row_independent [OF ri X] by simp
  have init: "gl_init_pred ?y X t = Inr (Q X n t s 0)"
    using X by (simp add: gl_init_pred_def ndim_def np_zeros_def Q_def map_const_upt)
  have st: "setitem_1 (Q X n t s k) k ?y = Inr (Q X n t s (Suc k))"
    unfolding Q_def
    using setitem_1_plane [where k = k and t = t and n = n and s = s and d = "D k"
        and u = "\<lambda>q. hd (G k (tensor_row X (q div s) (q mod s)))"
        and w = "\<lambda>i e j. astype (D e) DFloat (hd (G e (tensor_row X i j)))", OF k]
    by simp
  show ?thesis
  proof (cases "k = 0")
    case True
    then show ?thesis using call init st by simp
  next
    case False
    then show ?thesis using call st by simp
  qed
qed

lemma gl_transform_loop_planes:
  fixes G :: "nat \<Rightarrow> rat list \<Rightarrow> rat list" and D :: "nat \<Rightarrow> dtype"
  defines "Q \<equiv> \<lambda>X n t s k. \<lparr>shape = [n, t, s], dtype = DFloat,
              data = map (\<lambda>q. if (q div s) mod t < k
                                then astype (D ((q div s) mod t)) DFloat
                                       (hd (G ((q div s) mod t) (tensor_row X (q div (t * s)) (q mod s))))
                                else 0)
                         [0..<n * t * s]\<rparr>"
  assumes X: "shape X = [n, f, s]" and len: "length ests = t"
    and ri: "\<And>j. j < t \<Longrightarrow> row_independent api (ests ! j) method (G j) [] (D j)"
    and k: "k \<le> t"
  shows "gl_transform_loop api X method t (if k = 0 then None else Some (Q X n t s k)) (enumerate k (drop k ests))
       = Inr (if t = 0 then None else Some (Q X n t s t))"
  using k
proof (induction "t - k" arbitrary: k)
  case 0
  then have "k = t" by simp
  then show ?case using len by simp
next
  case (Suc m)
  then have k: "k < t" and m: "m = t - Suc k" and k': "Suc k \<le> t" by simp_all
  have dr: "drop k ests = ests ! k # drop (Suc k) ests"
    using k len by (simp add: Cons_nth_drop_Suc)
  have "gl_transform_loop api X method t (if k = 0 then None else Some (Q X n t s k)) (enumerate k (drop k ests))
      = gl_transform_loop api X method t (Some (Q X n t s (Suc k))) (enumerate (Suc k) (drop (Suc k) ests))"
    unfolding dr enumerate_simps Q_def
    by (rule gl_transform_loop_step [where G = G and D = D and k = k, OF X k ri [OF k]])
  also have "\<dots> = Inr (if t = 0 then None else Some (Q X n t s t))"
    using Suc.hyps(1) [OF m k'] by simp
  finally show ?case .
qed


lemma block_index:
  assumes "r < n" and "i < (s::nat)"
  shows "r * s + i < n * s" and "(r * s + i) div s = r" and "(r * s + i) mod s = i"
proof -
  have "r * s + i < r * s + s" using assms(2) by simp
  also have "\<dots> = Suc r * s" by simp
  also have "\<dots> \<le> n * s" using assms(1) by (intro mult_le_mono1) simp
  finally show "r * s + i < n * s" .
  show "(r * s + i) div s = r" using assms(2) by simp
  show "(r * s + i) mod s = i" using assms(2) by simp
qed

lemma getitem_1_matrix:
  assumes i: "i < s"
  shows "getitem_1 \<lparr>shape = [n, s], dtype = dt, data = map F [0..<n * s]\<rparr> i
       = Inr \<lparr>shape = [n], dtype = dt, data = map (\<lambda>r. F (r * s + i)) [0..<n]\<rparr>"
proof -
  have "map (\<lambda>q. map F [0..<n * s] ! (q * s + i)) [0..<n] = map (\<lambda>r. F (r * s + i)) [0..<n]"
  proof (rule map_cong [OF refl])
    fix r assume "r \<in> set [0..<n]"
    then have "r < n" by simp
    from block_index(1) [OF this i] show "map F [0..<n * s] ! (r * s + i) = F (r * s + i)"
      by simp
  qed
  then show ?thesis using i by (simp add: getitem_1_def del: map_eq_conv)
qed

lemma getitem_1_cube:
  assumes i: "i < t"
  shows "getitem_1 \<lparr>shape = [n, t, s], dtype = dt, data = map F [0..<n * t * s]\<rparr> i
       = Inr \<lparr>shape = [n, s], dtype = dt,
              data = map (\<lambda>q. F (((q div s) * t + i) * s + q mod s)) [0..<n * s]\<rparr>"
proof -
  have "map (\<lambda>q. map F [0..<n * t * s] ! (((q div s) * t + i) * s + q mod s)) [0..<n * s]
      = map (\<lambda>q. F (((q div s) * t + i) * s + q mod s)) [0..<n * s]"
  proof (rule map_cong [OF refl])
    fix q assume "q \<in> set [0..<n * s]"
    then have q: "q < n * s" by simp
    then have s0: "0 < s" by (cases s) auto
    have r: "q div s < n" using q by (simp add: less_mult_imp_div_less)
    have j: "q mod s < s" using s0 by simp
    have "(q div s) * t + i < n * t" by (rule block_index(1) [OF r i])
    from block_index(1) [OF this j]
    show "map F [0..<n * t * s] ! (((q div s) * t + i) * s + q mod s) = F (((q div s) * t + i) * s + q mod s)"
      by simp
  qed
  then show ?thesis using i by (simp add: getitem_1_def del: map_eq_conv)
qed

text \<open>
  What holds of the diagonal. For a tensor X of shape (n, f, s) with at least one slice
  and \<open>s\<close> estimators whose apply method is row-independent with one value per row (a
  rank-1 result, of any numeric kind), the loops of the same-slice and of the
  cross-slice apply, run on the whole tensor, both return, and for every index \<open>i\<close> the
  diagonal \<open>Y[:, i, i]\<close> of the cross-slice result equals the same-slice result \<open>[:, i]\<close>:
  the vector of the values of estimator \<open>i\<close> on the rows \<open>X[r, :, i]\<close>, converted to float.
\<close>

theorem diagonal_of_vector_results:
  assumes X: "shape X = [n, f, s]" and len: "length ests = s" and s: "0 < s"
    and ri: "\<forall>j<s. row_independent api (ests ! j) method (G j) [] (D j)"
  shows "\<exists>A B. sl_transform api ests X method = Inr A \<and> gl_transform api ests X method = Inr B
     \<and> (\<forall>i<s. getitem_1_2 B i i = getitem_1 A i
            \<and> getitem_1 A i = Inr \<lparr>shape = [n], dtype = DFloat,
                   data = map (\<lambda>r. astype (D i) DFloat (hd (G i (tensor_row X r i)))) [0..<n]\<rparr>)"
proof -
  let ?FP = "\<lambda>q. if q mod s < s
                  then astype (D (q mod s)) DFloat (hd (G (q mod s) (tensor_row X (q div s) (q mod s))))
                  else (0::rat)"
  let ?FQ = "\<lambda>q. if (q div s) mod s < s
                  then astype (D ((q div s) mod s)) DFloat
                         (hd (G ((q div s) mod s) (tensor_row X (q div (s * s)) (q mod s))))
                  else (0::rat)"
  let ?A = "\<lparr>shape = [n, s], dtype = DFloat, data = map ?FP [0..<n * s]\<rparr>"
  let ?B = "\<lparr>shape = [n, s, s], dtype = DFloat, data = map ?FQ [0..<n * s * s]\<rparr>"
  have ri': "\<And>j. j < s \<Longrightarrow> row_independent api (ests ! j) method (G j) [] (D j)"
    using ri by blast
  have "sl_transform_loop api X method None (enumerate 0 ests) = Inr (if s = 0 then None else Some ?A)"
    using sl_transform_loop_columns [where G = G and D = D and k = 0, OF X len ri'] by simp
  then have A: "sl_transform api ests X method = Inr ?A"
    using X s by (simp add: sl_transform_def)
  have "gl_transform_loop api X method s None (enumerate 0 ests) = Inr (if s = 0 then None else Some ?B)"
    using gl_transform_loop_planes [where G = G and D = D and k = 0, OF X len ri'] by simp
  then have B: "gl_transform api ests X method = Inr ?B"
    using X s len by (simp add: gl_transform_def)
  have col: "getitem_1 ?A i = Inr \<lparr>shape = [n], dtype = DFloat,
                   data = map (\<lambda>r. astype (D i) DFloat (hd (G i (tensor_row X r i)))) [0..<n]\<rparr>"
    and diag: "getitem_1_2 ?B i i = Inr \<lparr>shape = [n], dtype = DFloat,
                   data = map (\<lambda>r. astype (D i) DFloat (hd (G i (tensor_row X r i)))) [0..<n]\<rparr>"
    if i: "i < s" for i
  proof -
    have e1: "map (\<lambda>r. ?FP (r * s + i)) [0..<n] = map (\<lambda>r. astype (D i) DFloat (hd (G i (tensor_row X r i)))) [0..<n]"
    proof (rule map_cong [OF refl])
      fix r assume "r \<in> set [0..<n]"
      then have r: "r < n" by simp
      show "?FP (r * s + i) = astype (D i) DFloat (hd (G i (tensor_row X r i)))"
        unfolding block_index(2,3) [OF r i] using i by simp
    qed
    show "getitem_1 ?A i = Inr \<lparr>shape = [n], dtype = DFloat,
                   data = map (\<lambda>r. astype (D i) DFloat (hd (G i (tensor_row X r i)))) [0..<n]\<rparr>"
      unfolding getitem_1_matrix [OF i] e1 ..
    have e2: "map (\<lambda>r. ?FQ ((((r * s + i) div s) * s + i) * s + (r * s + i) mod s)) [0..<n]
        = map (\<lambda>r. astype (D i) DFloat (hd (G i (tensor_row X r i)))) [0..<n]"
    proof (rule map_cong [OF refl])
      fix r assume "r \<in> set [0..<n]"
      then have r: "r < n" by simp
      have ri: "r * s + i < n * s" by (rule block_index(1) [OF r i])
      have d2: "((r * s + i) * s + i) div (s * s) = r"
        unfolding div_mult2_eq block_index(2) [OF ri i] block_index(2) [OF r i] ..
      show "?FQ ((((r * s + i) div s) * s + i) * s + (r * s + i) mod s) = astype (D i) DFloat (hd (G i (tensor_row X r i)))"
        unfolding block_index(2,3) [OF r i] d2 block_index(2,3) [OF ri i] using i by simp
    qed
    have "getitem_1_2 ?B i i = ebind (Inr \<lparr>shape = [n, s], dtype = DFloat,
              data = map (\<lambda>q. ?FQ (((q div s) * s + i) * s + q mod s)) [0..<n * s]\<rparr>)
            (\<lambda>z. getitem_1 z i)"
      unfolding getitem_1_2_def getitem_1_cube [OF i] ..
    also have "\<dots> = Inr \<lparr>shape = [n], dtype = DFloat,
              data = map (\<lambda>r. ?FQ ((((r * s + i) div s) * s + i) * s + (r * s + i) mod s)) [0..<n]\<rparr>"
      unfolding ebind_simps
      by (rule getitem_1_matrix [OF i, where F = "\<lambda>q. ?FQ (((q div s) * s + i) * s + q mod s)"])
    finally show "getitem_1_2 ?B i i = Inr \<lparr>shape = [n], dtype = DFloat,
                   data = map (\<lambda>r. astype (D i) DFloat (hd (G i (tensor_row X r i)))) [0..<n]\<rparr>"
      unfolding e2 .
  qed
  show ?thesis
    using A B col diag by (intro exI [of _ ?A] exI [of _ ?B]) simp
qed

lemma toy_predict_row_independent:
  "row_independent toy_api (Toy [''predict''] c) ''predict'' (\<lambda>r. [c + sum_list r]) [] DFloat"
  by (simp add: row_independent_def toy_api_def toy_call_def)

theorem diagonal_of_vector_results_witness:
  "shape X22 = [2, 1, 2]
   \<and> length [Toy [''predict''] 5, Toy [''predict''] 7] = 2 \<and> (0::nat) < 2
   \<and> row_independent toy_api ([Toy [''predict''] 5, Toy [''predict''] 7] ! 0) ''predict''
         (\<lambda>r. [5 + sum_list r]) [] DFloat
   \<and> row_independent toy_api ([Toy [''predict''] 5, Toy [''predict''] 7] ! 1) ''predict''
         (\<lambda>r. [7 + sum_list r]) [] DFloat
   \<and> sl_transform toy_api [Toy [''predict''] 5, Toy [''predict''] 7] X22 ''predict''
       = Inr \<lparr>shape = [2, 2], dtype = DFloat, data = [6, 9, 8, 11]\<rparr>
   \<and> gl_transform toy_api [Toy [''predict''] 5, Toy [''predict''] 7] X22 ''predict''
       = Inr \<lparr>shape = [2, 2, 2], dtype = DFloat, data = [6, 7, 8, 9, 8, 9, 10, 11]\<rparr>
   \<and> getitem_1_2 \<lparr>shape = [2, 2, 2], dtype = DFloat, data = [6, 7, 8, 9, 8, 9, 10, 11]\<rparr> 1 1
       = getitem_1 \<lparr>shape = [2, 2], dtype = DFloat, data = [6, 9, 8, 11]\<rparr> 1
   \<and> getitem_1 \<lparr>shape = [2, 2], dtype = DFloat, data = [6, 9, 8, 11]\<rparr> 1
       = Inr \<lparr>shape = [2], dtype = DFloat, data = [9, 11]\<rparr>"
proof -
  let ?ests = "[Toy [''predict''] 5, Toy [''predict''] 7]"
  let ?G = "\<lambda>j r. [toy_coef (?ests ! j) + sum_list r]"
  have h1: "shape X22 = [2, 1, 2]" by (simp add: X22_def)
  have h2: "length ?ests = 2" by simp
  have h3: "(0::nat) < 2" by simp
  have r0: "row_independent toy_api (?ests ! 0) ''predict'' (\<lambda>r. [5 + sum_list r]) [] DFloat"
    using toy_predict_row_independent [of 5] by simp
  have r1: "row_independent toy_api (?ests ! 1) ''predict'' (\<lambda>r. [7 + sum_list r]) [] DFloat"
    using toy_predict_row_independent [of 7] by simp
  have h4: "\<forall>j<2. row_independent toy_api (?ests ! j) ''predict'' (?G j) [] ((\<lambda>j. DFloat) j)"
  proof (intro allI impI)
    fix j :: nat assume "j < 2"
    then have "j = 0 \<or> j = 1" by auto
    then show "row_independent toy_api (?ests ! j) ''predict'' (?G j) [] DFloat"
      using r0 r1 by auto
  qed
  have a: "sl_transform toy_api ?ests X22 ''predict''
       = Inr \<lparr>shape = [2, 2], dtype = DFloat, data = [6, 9, 8, 11]\<rparr>"
    by code_simp
  have b: "gl_transform toy_api ?ests X22 ''predict''
       = Inr \<lparr>shape = [2, 2, 2], dtype = DFloat, data = [6, 7, 8, 9, 8, 9, 10, 11]\<rparr>"
    by code_simp
  from diagonal_of_vector_results [OF h1 h2 h3 h4]
  obtain A B where A: "sl_transform toy_api ?ests X22 ''predict'' = Inr A"
    and B: "gl_transform toy_api ?ests X22 ''predict'' = Inr B"
    and d: "\<forall>i<2. getitem_1_2 B i i = getitem_1 A i
            \<and> getitem_1 A i = Inr \<lparr>shape = [2], dtype = DFloat,
                   data = map (\<lambda>r. astype DFloat DFloat (hd (?G i (tensor_row X22 r i)))) [0..<2]\<rparr>"
    by blast
  have A': "A = \<lparr>shape = [2, 2], dtype = DFloat, data = [6, 9, 8, 11]\<rparr>" using A a by simp
  have B': "B = \<lparr>shape = [2, 2, 2], dtype = DFloat, data = [6, 7, 8, 9, 8, 9, 10, 11]\<rparr>" using B b by simp
  have d1: "getitem_1_2 B 1 1 = getitem_1 A 1" using d by simp
  have c: "getitem_1 \<lparr>shape = [2, 2], dtype = DFloat, data = [6, 9, 8, 11]\<rparr> 1
       = Inr \<lparr>shape = [2], dtype = DFloat, data = [9, 11]\<rparr>"
    by code_simp
  show ?thesis
    using h1 r0 r1 a b c d1 unfolding A' B' by simp
qed

lemma toy_fitted_proba_row_independent:
  "row_independent toy_api (Toy [''fit'', ''predict_proba''] c) ''predict_proba''
     (\<lambda>r. [sum_list r, c]) [2] DFloat"
  by (simp add: row_independent_def toy_api_def toy_call_def)

text \<open>
  C6. As stated, for every apply operation: the diagonal \<open>Y[:, i, i, ...]\<close> of the
  cross-slice result equals the same-slice result \<open>[:, i, ...]\<close>. It fails for
  \<open>predict_proba\<close>, whose result has a row of values per sample, although the method
  is row-independent: the same-slice apply allocates the tensor of such a result as
  integers, where the cross-slice apply allocates floats, so the same-slice values are
  truncated on storing and the cross-slice ones are not. The ensemble is fitted on the
  tensor of 2 samples, 1 feature and 2 slices with the entries 1/2, 3/2, 5/2, 7/2 and
  applied to it. Estimator 1 gives the rows (3/2, 6) and (7/2, 6) on slice 1; they are
  the diagonal of the cross-slice result at index 1, and the same-slice result holds
  (1, 6) and (3, 6) there.
\<close>

theorem diagonal_differs_for_matrix_results:
  "SearchLight_fit toy_api (SearchLight_init (Toy [''fit'', ''predict_proba''] 0) 1) X22h [1, 0]
     = (Inr (), \<lparr>base_estimator = Toy [''fit'', ''predict_proba''] 0, n_jobs = 1,
                  estimators_attr = Some [Toy [''fit'', ''predict_proba''] 4,
                                          Toy [''fit'', ''predict_proba''] 6]\<rparr>)
   \<and> SearchLight_predict_proba toy_api
        \<lparr>base_estimator = Toy [''fit'', ''predict_proba''] 0, n_jobs = 1,
           estimators_attr = Some [Toy [''fit'', ''predict_proba''] 4,
                                   Toy [''fit'', ''predict_proba''] 6]\<rparr> X22h
       = Inr \<lparr>shape = [2, 2, 2], dtype = DInt, data = [0, 4, 1, 6, 2, 4, 3, 6]\<rparr>
   \<and> GeneralizationLight_predict_proba toy_api
        \<lparr>base_estimator = Toy [''fit'', ''predict_proba''] 0, n_jobs = 1,
           estimators_attr = Some [Toy [''fit'', ''predict_proba''] 4,
                                   Toy [''fit'', ''predict_proba''] 6]\<rparr> X22h
       = Inr \<lparr>shape = [2, 2, 2, 2], dtype = DFloat,
              data = [1 / 2, 4, 3 / 2, 4, 1 / 2, 6, 3 / 2, 6, 5 / 2, 4, 7 / 2, 4, 5 / 2, 6, 7 / 2, 6]\<rparr>
   \<and> ebind (index_last X22h 1) (est_call toy_api (Toy [''fit'', ''predict_proba''] 6) ''predict_proba'')
       = Inr \<lparr>shape = [2, 2], dtype = DFloat, data = [3 / 2, 6, 7 / 2, 6]\<rparr>
   \<and> getitem_1_2 \<lparr>shape = [2, 2, 2, 2], dtype = DFloat,
              data = [1 / 2, 4, 3 / 2, 4, 1 / 2, 6, 3 / 2, 6, 5 / 2, 4, 7 / 2, 4, 5 / 2, 6, 7 / 2, 6]\<rparr> 1 1
       = Inr \<lparr>shape = [2, 2], dtype = DFloat, data = [3 / 2, 6, 7 / 2, 6]\<rparr>
   \<and> getitem_1 \<lparr>shape = [2, 2, 2], dtype = DInt, data = [0, 4, 1, 6, 2, 4, 3, 6]\<rparr> 1
       = Inr \<lparr>shape = [2, 2], dtype = DInt, data = [1, 6, 3, 6]\<rparr>
   \<and> getitem_1_2 \<lparr>shape = [2, 2, 2, 2], dtype = DFloat,
              data = [1 / 2, 4, 3 / 2, 4, 1 / 2, 6, 3 / 2, 6, 5 / 2, 4, 7 / 2, 4, 5 / 2, 6, 7 / 2, 6]\<rparr> 1 1
       \<noteq> getitem_1 \<lparr>shape = [2, 2, 2], dtype = DInt, data = [0, 4, 1, 6, 2, 4, 3, 6]\<rparr> 1"
  by code_simp

subsection \<open>Number of jobs: what holds\<close>

text \<open>
  For models that are no sequences, the result of \<open>fit\<close> does not depend on the number
  of jobs, as long as the resolved count is positive: the outcome and the fitted
  estimators are the same for any two counts, also for more jobs than slices (an empty
  chunk fits nothing).
\<close>

theorem fit_independent_of_n_jobs:
  assumes "shape X = [n, f, s]" and "check_Xy X (Some y) = Inr ()"
    and "0 < parallel_func api j1" and "0 < parallel_func api j2"
    and "\<forall>e. sequence_items api e = None"
  shows "fst (SearchLight_fit api (self\<lparr>n_jobs := j1\<rparr>) X y) = fst (SearchLight_fit api (self\<lparr>n_jobs := j2\<rparr>) X y)
     \<and> estimators_attr (snd (SearchLight_fit api (self\<lparr>n_jobs := j1\<rparr>) X y))
         = estimators_attr (snd (SearchLight_fit api (self\<lparr>n_jobs := j2\<rparr>) X y))"
proof -
  have a: "0 < parallel_func api (n_jobs (self\<lparr>n_jobs := j1\<rparr>))" using assms(3) by simp
  have b: "0 < parallel_func api (n_jobs (self\<lparr>n_jobs := j2\<rparr>))" using assms(4) by simp
  show ?thesis
    unfolding SearchLight_fit_slices [OF assms(1,2) a assms(5)] SearchLight_fit_slices [OF assms(1,2) b assms(5)]
    by (simp split: sum.splits)
qed

theorem fit_independent_of_n_jobs_witness:
  "shape X22 = [2, 1, 2] \<and> check_Xy X22 (Some [1, 0]) = Inr ()
   \<and> 0 < parallel_func toy_api 1 \<and> 0 < parallel_func toy_api 3
   \<and> fst (SearchLight_fit toy_api ((SearchLight_init (Toy [''fit'', ''predict''] 0) 1)\<lparr>n_jobs := 1\<rparr>) X22 [1, 0])
       = fst (SearchLight_fit toy_api ((SearchLight_init (Toy [''fit'', ''predict''] 0) 1)\<lparr>n_jobs := 3\<rparr>) X22 [1, 0])
   \<and> estimators_attr (snd (SearchLight_fit toy_api ((SearchLight_init (Toy [''fit'', ''predict''] 0) 1)\<lparr>n_jobs := 3\<rparr>) X22 [1, 0]))
       = Some [Toy [''fit'', ''predict''] 5, Toy [''fit'', ''predict''] 7]"
proof -
  have h1: "shape X22 = [2, 1, 2]" by (simp add: X22_def)
  have h2: "check_Xy X22 (Some [1, 0]) = Inr ()" by code_simp
  have h3: "0 < parallel_func toy_api 1" by (simp add: parallel_func_def)
  have h4: "0 < parallel_func toy_api 3" by (simp add: parallel_func_def)
  have h5: "\<forall>e. sequence_items toy_api e = None" by (simp add: toy_api_def)
  have v: "estimators_attr (snd (SearchLight_fit toy_api ((SearchLight_init (Toy [''fit'', ''predict''] 0) 1)\<lparr>n_jobs := 3\<rparr>) X22 [1, 0]))
       = Some [Toy [''fit'', ''predict''] 5, Toy [''fit'', ''predict''] 7]"
    by code_simp
  show ?thesis
    using h1 h2 h3 h4 v
      fit_independent_of_n_jobs [OF h1 h2 h3 h4 h5, of "SearchLight_init (Toy [''fit'', ''predict''] 0) 1"]
    by blast
qed


lemma np_concatenate_axis:
  assumes ne: "arrs \<noteq> []"
    and sh: "\<forall>b\<in>set arrs. length (shape b) = r \<and> take axis (shape b) = pre
               \<and> drop (Suc axis) (shape b) = post \<and> dtype b = d"
    and ax: "axis < r"
  shows "np_concatenate arrs axis =
     Inr \<lparr>shape = pre @ [sum_list (map (\<lambda>b. shape b ! axis) arrs)] @ post, dtype = d,
          data = concat (map (\<lambda>outer. concat (map (\<lambda>b.
                     take (prod_list (drop axis (shape b)))
                       (drop (outer * prod_list (drop axis (shape b))) (data b))) arrs))
                   [0..<prod_list pre])\<rparr>"
proof -
  obtain a rest where ar: "arrs = a # rest" using ne by (cases arrs) auto
  have a: "length (shape a) = r" "take axis (shape a) = pre" "drop (Suc axis) (shape a) = post" "dtype a = d"
    using sh ar by auto
  have rest: "\<forall>b\<in>set rest. length (shape b) = r \<and> take axis (shape b) = pre
               \<and> drop (Suc axis) (shape b) = post \<and> dtype b = d" using sh ar by auto
  have c1: "list_ex (\<lambda>b. ndim b \<noteq> ndim a) rest = False"
    using rest a(1) by (auto simp: list_ex_iff ndim_def)
  have c2: "(ndim a \<le> axis) = False" using ax a(1) by (simp add: ndim_def)
  have c3: "list_ex (\<lambda>b. take axis (shape b) \<noteq> take axis (shape a)
                   \<or> drop (Suc axis) (shape b) \<noteq> drop (Suc axis) (shape a)) rest = False"
    using rest a(2,3) by (auto simp: list_ex_iff)
  have dt: "(if list_ex (\<lambda>b. dtype b = DFloat) (a # rest) then DFloat else DInt) = d"
    using rest a(4) by (cases d) (auto simp: list_ex_iff)
  have cv: "map (\<lambda>b. map (astype (dtype b) d) (F b)) (a # rest) = map F (a # rest)"
    for F :: "ndarray \<Rightarrow> rat list"
    by (rule map_cong [OF refl]) (use sh ar in \<open>auto simp: map_astype_same\<close>)
  have "np_concatenate (a # rest) axis =
     Inr \<lparr>shape = take axis (shape a) @ [sum_list (map (\<lambda>b. shape b ! axis) (a # rest))]
                             @ drop (Suc axis) (shape a),
          dtype = (if list_ex (\<lambda>b. dtype b = DFloat) (a # rest) then DFloat else DInt),
          data = concat (map (\<lambda>outer. concat (map (\<lambda>b.
                               map (astype (dtype b)
                                      (if list_ex (\<lambda>b. dtype b = DFloat) (a # rest) then DFloat else DInt))
                                 (take (prod_list (drop axis (shape b)))
                                    (drop (outer * prod_list (drop axis (shape b))) (data b)))) (a # rest)))
                             [0..<prod_list (take axis (shape a))])\<rparr>"
    unfolding np_concatenate_def list.case c1 c2 c3 if_False ..
  then show ?thesis
    unfolding dt cv a(2,3) ar .
qed

lemma tensor_row_slice_last:
  assumes X: "shape X = [n, f, s]" and i: "i < n" and j: "j < z"
  shows "tensor_row (slice_last X st z) i j = tensor_row X i (st + j)"
proof -
  have "map (\<lambda>k. map (\<lambda>q. data X ! (q div z * s + st + q mod z)) [0..<n * f * z] ! ((i * f + k) * z + j)) [0..<f]
      = map (\<lambda>k. data X ! ((i * f + k) * s + (st + j))) [0..<f]"
  proof (rule map_cong [OF refl])
    fix k assume "k \<in> set [0..<f]"
    then have k: "k < f" by simp
    have p: "i * f + k < n * f" by (rule block_index(1) [OF i k])
    have lt: "(i * f + k) * z + j < n * f * z" by (rule block_index(1) [OF p j])
    show "map (\<lambda>q. data X ! (q div z * s + st + q mod z)) [0..<n * f * z] ! ((i * f + k) * z + j)
        = data X ! ((i * f + k) * s + (st + j))"
      using lt block_index(2,3) [OF p j] by (simp add: add.assoc)
  qed
  then show ?thesis
    using X by (simp add: tensor_row_def slice_last_def)
qed

lemma sl_transform_vector:
  assumes X: "shape X = [n, f, s]" and len: "length ests = s" and s: "0 < s"
    and ri: "\<And>j. j < s \<Longrightarrow> row_independent api (ests ! j) method (G j) [] (D j)"
  shows "sl_transform api ests X method
       = Inr \<lparr>shape = [n, s], dtype = DFloat,
              data = map (\<lambda>q. astype (D (q mod s)) DFloat (hd (G (q mod s) (tensor_row X (q div s) (q mod s)))))
                         [0..<n * s]\<rparr>"
proof -
  let ?FP = "\<lambda>q. if q mod s < s
                  then astype (D (q mod s)) DFloat (hd (G (q mod s) (tensor_row X (q div s) (q mod s))))
                  else (0::rat)"
  have "sl_transform_loop api X method None (enumerate 0 ests)
      = Inr (if s = 0 then None else Some \<lparr>shape = [n, s], dtype = DFloat, data = map ?FP [0..<n * s]\<rparr>)"
    using sl_transform_loop_columns [where G = G and D = D and k = 0, OF X len ri] by simp
  moreover have "map ?FP [0..<n * s]
      = map (\<lambda>q. astype (D (q mod s)) DFloat (hd (G (q mod s) (tensor_row X (q div s) (q mod s)))))
            [0..<n * s]"
    using s by (intro map_cong [OF refl]) simp
  ultimately show ?thesis
    using X s by (simp add: sl_transform_def del: map_eq_conv)
qed

lemma sl_transform_chunk:
  assumes X: "shape X = [n, f, s]" and len: "length ests = s"
    and ri: "\<And>j. j < s \<Longrightarrow> row_independent api (ests ! j) method (G j) [] (D j)"
    and z: "0 < z" and b: "st + z \<le> s"
  shows "sl_transform api (take z (drop st ests)) (slice_last X st z) method
       = Inr \<lparr>shape = [n, z], dtype = DFloat,
              data = map (\<lambda>q. astype (D (st + q mod z)) DFloat
                                    (hd (G (st + q mod z) (tensor_row X (q div z) (st + q mod z)))))
                         [0..<n * z]\<rparr>"
proof -
  have X': "shape (slice_last X st z) = [n, f, z]" using X by (simp add: slice_last_def)
  have len': "length (take z (drop st ests)) = z" using len b by simp
  have ri': "row_independent api (take z (drop st ests) ! j) method ((\<lambda>j. G (st + j)) j) [] ((\<lambda>j. D (st + j)) j)"
    if "j < z" for j
    using ri [of "st + j"] that b len by simp
  have "map (\<lambda>q. astype (D (st + q mod z)) DFloat
                   (hd (G (st + q mod z) (tensor_row (slice_last X st z) (q div z) (q mod z))))) [0..<n * z]
      = map (\<lambda>q. astype (D (st + q mod z)) DFloat
                   (hd (G (st + q mod z) (tensor_row X (q div z) (st + q mod z))))) [0..<n * z]"
  proof (rule map_cong [OF refl])
    fix q assume "q \<in> set [0..<n * z]"
    then have q: "q < n * z" by simp
    have i: "q div z < n" using q by (simp add: less_mult_imp_div_less)
    have j: "q mod z < z" using z by simp
    show "astype (D (st + q mod z)) DFloat
            (hd (G (st + q mod z) (tensor_row (slice_last X st z) (q div z) (q mod z))))
        = astype (D (st + q mod z)) DFloat
            (hd (G (st + q mod z) (tensor_row X (q div z) (st + q mod z))))"
      unfolding tensor_row_slice_last [OF X i j] ..
  qed
  then show ?thesis
    using sl_transform_vector [where G = "\<lambda>j. G (st + j)" and D = "\<lambda>j. D (st + j)", OF X' len' z ri']
    by simp
qed


lemma sections_from_sizes: "(a, z) \<in> set (sections_from st zs) \<Longrightarrow> z \<in> set zs"
  by (induction zs arbitrary: st) auto

lemma sections_positive:
  assumes "0 < k" and "k \<le> s" and "(a, z) \<in> set (sections s k)"
  shows "0 < z"
proof -
  have "0 < s div k" using assms(1,2) by (simp add: div_greater_zero_iff)
  moreover have "z \<in> set (section_sizes s k)"
    using assms(3) by (auto simp: sections_def dest: sections_from_sizes)
  ultimately show ?thesis by (auto simp: section_sizes_def)
qed

lemma sections_bound:
  assumes "0 < k" and "(a, z) \<in> set (sections s k)"
  shows "a + z \<le> s"
  using sections_from_bound [of a z 0 "section_sizes s k"] assms
  by (simp add: sections_def sum_section_sizes)

lemma sections_one: "sections s (Suc 0) = [(0, s)]"
  by (simp add: sections_def section_sizes_def)

lemma concatenate_columns:
  fixes V :: "nat \<Rightarrow> nat \<Rightarrow> rat"
  assumes ne: "secs \<noteq> []"
    and cover: "concat (map (\<lambda>(st, z). [st..<st + z]) secs) = [0..<s]"
  shows "np_concatenate
           (map (\<lambda>(st, z). \<lparr>shape = [n, z], dtype = DFloat,
                    data = map (\<lambda>q. V (q div z) (st + q mod z)) [0..<n * z]\<rparr>) secs) 1
       = Inr \<lparr>shape = [n, s], dtype = DFloat, data = map (\<lambda>q. V (q div s) (q mod s)) [0..<n * s]\<rparr>"
proof -
  let ?C = "\<lambda>(st, z). \<lparr>shape = [n, z], dtype = DFloat,
                    data = map (\<lambda>q. V (q div z) (st + q mod z)) [0..<n * z]\<rparr>"
  let ?arrs = "map ?C secs"
  have ne': "?arrs \<noteq> []" using ne by simp
  have sh: "\<forall>b\<in>set ?arrs. length (shape b) = 2 \<and> take 1 (shape b) = [n]
               \<and> drop (Suc 1) (shape b) = [] \<and> dtype b = DFloat"
    by auto
  have blk: "take (prod_list (drop 1 (shape (?C (st, z)))))
               (drop (outer * prod_list (drop 1 (shape (?C (st, z))))) (data (?C (st, z))))
           = map (V outer) [st..<st + z]" if o: "outer < n" for outer st z
  proof -
    have "take z (drop (outer * z) (map (\<lambda>q. V (q div z) (st + q mod z)) [0..<n * z]))
        = map (\<lambda>j. V ((outer * z + j) div z) (st + (outer * z + j) mod z)) [0..<z]"
      by (rule take_drop_map_upt [OF row_bound [OF o]])
    also have "\<dots> = map (\<lambda>j. V outer (st + j)) [0..<z]"
      by (rule map_cong [OF refl]) simp
    also have "\<dots> = map (V outer) [st..<st + z]"
      by (rule map_upt_shift)
    finally show ?thesis by simp
  qed
  have row: "concat (map (\<lambda>b. take (prod_list (drop 1 (shape b)))
                 (drop (outer * prod_list (drop 1 (shape b))) (data b))) ?arrs)
           = map (V outer) [0..<s]" if o: "outer < n" for outer
  proof -
    have "map (\<lambda>b. take (prod_list (drop 1 (shape b)))
                 (drop (outer * prod_list (drop 1 (shape b))) (data b))) ?arrs
        = map (\<lambda>(st, z). map (V outer) [st..<st + z]) secs"
      unfolding map_map comp_def
      by (rule map_cong [OF refl]) (use blk [OF o] in auto)
    also have "concat \<dots> = map (V outer) (concat (map (\<lambda>(st, z). [st..<st + z]) secs))"
      by (simp add: map_concat comp_def split_def)
    finally show ?thesis by (simp only: cover)
  qed
  have len: "sum_list (map (\<lambda>b. shape b ! 1) ?arrs) = s"
  proof -
    have "sum_list (map (\<lambda>b. shape b ! 1) ?arrs) = sum_list (map (\<lambda>(st, z). length [st..<st + z]) secs)"
      by (simp add: comp_def split_def)
    also have "\<dots> = length (concat (map (\<lambda>(st, z). [st..<st + z]) secs))"
      by (simp add: length_concat comp_def split_def)
    finally show ?thesis by (simp only: cover) simp
  qed
  have pn: "prod_list [n] = n" by simp
  have "map (\<lambda>outer. concat (map (\<lambda>b. take (prod_list (drop 1 (shape b)))
                 (drop (outer * prod_list (drop 1 (shape b))) (data b))) ?arrs)) [0..<prod_list [n]]
      = map (\<lambda>outer. map (V outer) [0..<s]) [0..<n]"
    unfolding pn by (rule map_cong [OF refl], rule row, simp)
  then have "concat (map (\<lambda>outer. concat (map (\<lambda>b. take (prod_list (drop 1 (shape b)))
                 (drop (outer * prod_list (drop 1 (shape b))) (data b))) ?arrs)) [0..<prod_list [n]])
      = concat (map (\<lambda>outer. map (V outer) [0..<s]) [0..<n])"
    by (rule arg_cong)
  also have "\<dots> = map (\<lambda>q. V (q div s) (q mod s)) [0..<n * s]"
    by (rule map_div_mod_upt [symmetric])
  finally have dat: "concat (map (\<lambda>outer. concat (map (\<lambda>b. take (prod_list (drop 1 (shape b)))
                 (drop (outer * prod_list (drop 1 (shape b))) (data b))) ?arrs)) [0..<prod_list [n]])
      = map (\<lambda>q. V (q div s) (q mod s)) [0..<n * s]" .
  have ax: "(1::nat) < 2" by simp
  show ?thesis
    unfolding np_concatenate_axis [OF ne' sh ax] len dat by simp
qed


lemma SearchLight_transform_aux_chunks:
  assumes "shape X = [n, f, s]" and "estimators_attr self = Some ests" and "length ests = s"
    and "parallel_func api (n_jobs self) = k" and "0 < k"
  shows "SearchLight_transform_aux api self X method =
        ebind (parallel (map (\<lambda>(st, z). sl_transform api (take z (drop st ests)) (slice_last X st z)
                                 (check_method api (base_estimator self) method)) (sections s k)))
          (\<lambda>y_pred. if 1 < k then np_concatenate y_pred 1
                     else (case y_pred of [] \<Rightarrow> Inl IndexError | y0 # _ \<Rightarrow> Inr y0))"
proof -
  have r3: "check_Xy X None = Inr ()" using assms(1) by (simp add: check_Xy_rank3 ndim_def)
  have sp: "array_split_last X k = Inr (map (\<lambda>(st, z). slice_last X st z) (sections s k))"
    using assms(1,5) by (simp add: array_split_last_def)
  have se: "array_split_list ests k = Inr (map (\<lambda>(st, z). take z (drop st ests)) (sections s k))"
    using assms(3,5) by (simp add: array_split_list_def)
  have zp: "zip (map (\<lambda>(st, z). take z (drop st ests)) (sections s k))
                (map (\<lambda>(st, z). slice_last X st z) (sections s k))
            = map (\<lambda>(st, z). (take z (drop st ests), slice_last X st z)) (sections s k)"
    by (simp add: zip_map_same split_def)
  show ?thesis
    using assms r3 sp se zp
    by (simp add: SearchLight_transform_aux_def get_estimators_def Let_def comp_def split_def)
qed

text \<open>
  For a same-slice ensemble whose resolved method is row-independent with one value per
  row, and a resolved number of jobs between 1 and the number of slices, the apply
  result is the tensor of the values of estimator \<open>j\<close> on the rows \<open>X[i, :, j]\<close>,
  converted to float, whatever the number of jobs; in particular it equals the result
  with one job.
\<close>

theorem SearchLight_apply_independent_of_n_jobs:
  assumes X: "shape X = [n, f, s]" and fitted: "estimators_attr self = Some ests" and len: "length ests = s"
    and ri: "\<forall>j<s. row_independent api (ests ! j) (check_method api (base_estimator self) method) (G j) [] (D j)"
    and k0: "0 < parallel_func api (n_jobs self)" and ks: "parallel_func api (n_jobs self) \<le> s"
  shows "SearchLight_transform_aux api self X method
       = Inr \<lparr>shape = [n, s], dtype = DFloat,
              data = map (\<lambda>q. astype (D (q mod s)) DFloat
                                    (hd (G (q mod s) (tensor_row X (q div s) (q mod s)))))
                         [0..<n * s]\<rparr>
     \<and> SearchLight_transform_aux api self X method
       = SearchLight_transform_aux api (self\<lparr>n_jobs := 1\<rparr>) X method"
proof -
  let ?m = "check_method api (base_estimator self) method"
  let ?V = "\<lambda>i j. astype (D j) DFloat (hd (G j (tensor_row X i j)))"
  let ?C = "\<lambda>(st, z). \<lparr>shape = [n, z], dtype = DFloat,
                    data = map (\<lambda>q. ?V (q div z) (st + q mod z)) [0..<n * z]\<rparr>"
  let ?R = "\<lparr>shape = [n, s], dtype = DFloat, data = map (\<lambda>q. ?V (q div s) (q mod s)) [0..<n * s]\<rparr>"
  have ri': "\<And>j. j < s \<Longrightarrow> row_independent api (ests ! j) ?m (G j) [] (D j)"
    using ri by blast
  have closed: "SearchLight_transform_aux api self' X method = Inr ?R"
    if f': "estimators_attr self' = Some ests" and b': "base_estimator self' = base_estimator self"
      and k: "parallel_func api (n_jobs self') = k" and k0': "0 < k" and ks': "k \<le> s"
    for self' :: "'a SearchLight" and k
  proof -
    have "map (\<lambda>(st, z). sl_transform api (take z (drop st ests)) (slice_last X st z) ?m) (sections s k)
        = map (\<lambda>p. Inr (?C p)) (sections s k)"
    proof (rule map_cong [OF refl])
      fix p assume p: "p \<in> set (sections s k)"
      obtain st z where pz: "p = (st, z)" by (cases p)
      have z: "0 < z" using sections_positive [OF k0' ks'] p pz by blast
      have b: "st + z \<le> s" using sections_bound [OF k0'] p pz by blast
      show "(case p of (st, z) \<Rightarrow> sl_transform api (take z (drop st ests)) (slice_last X st z) ?m)
          = Inr (?C p)"
        unfolding pz using sl_transform_chunk [where G = G and D = D, OF X len ri' z b] by simp
    qed
    then have par: "parallel (map (\<lambda>(st, z). sl_transform api (take z (drop st ests)) (slice_last X st z) ?m)
                       (sections s k)) = Inr (map ?C (sections s k))"
      by (simp only: parallel_map_Inr)
    have ch: "SearchLight_transform_aux api self' X method =
        (if 1 < k then np_concatenate (map ?C (sections s k)) 1
         else (case map ?C (sections s k) of [] \<Rightarrow> Inl IndexError | y0 # _ \<Rightarrow> Inr y0))"
      unfolding SearchLight_transform_aux_chunks [OF X f' len k k0'] b' par ebind_simps ..
    show ?thesis
    proof (cases "1 < k")
      case True
      have ne: "sections s k \<noteq> []" using sections_cover [OF k0', of s] k0' by auto
      have cover: "concat (map (\<lambda>(st, z). [st..<st + z]) (sections s k)) = [0..<s]"
        using concat_sections_from [of 0 "section_sizes s k"] k0'
        by (simp add: sections_def sum_section_sizes)
      show ?thesis
        unfolding ch using True concatenate_columns [OF ne cover, of n ?V] by simp
    next
      case False
      then have "k = 1" using k0' by simp
      then show ?thesis unfolding ch by (simp add: sections_one)
    qed
  qed
  have s1: "1 \<le> s" using k0 ks by simp
  have a: "SearchLight_transform_aux api self X method = Inr ?R"
    by (rule closed [OF fitted refl refl k0 ks])
  have b: "SearchLight_transform_aux api (self\<lparr>n_jobs := 1\<rparr>) X method = Inr ?R"
    by (rule closed [where k = 1]) (use fitted s1 in \<open>simp_all add: parallel_func_def\<close>)
  show ?thesis using a b by simp
qed

theorem SearchLight_apply_independent_of_n_jobs_witness:
  "shape X22 = [2, 1, 2]
   \<and> estimators_attr \<lparr>base_estimator = Toy [''predict''] 0, n_jobs = 2,
        estimators_attr = Some [Toy [''predict''] 5, Toy [''predict''] 7]\<rparr>
       = Some [Toy [''predict''] 5, Toy [''predict''] 7]
   \<and> length [Toy [''predict''] 5, Toy [''predict''] 7] = 2
   \<and> 0 < parallel_func toy_api 2 \<and> parallel_func toy_api 2 \<le> 2
   \<and> SearchLight_transform_aux toy_api
        \<lparr>base_estimator = Toy [''predict''] 0, n_jobs = 2,
           estimators_attr = Some [Toy [''predict''] 5, Toy [''predict''] 7]\<rparr> X22 ''predict''
       = Inr \<lparr>shape = [2, 2], dtype = DFloat, data = [6, 9, 8, 11]\<rparr>
   \<and> SearchLight_transform_aux toy_api
        \<lparr>base_estimator = Toy [''predict''] 0, n_jobs = 2,
           estimators_attr = Some [Toy [''predict''] 5, Toy [''predict''] 7]\<rparr> X22 ''predict''
       = SearchLight_transform_aux toy_api
        \<lparr>base_estimator = Toy [''predict''] 0, n_jobs = 1,
           estimators_attr = Some [Toy [''predict''] 5, Toy [''predict''] 7]\<rparr> X22 ''predict''"
proof -
  let ?ests = "[Toy [''predict''] 5, Toy [''predict''] 7]"
  let ?self = "\<lparr>base_estimator = Toy [''predict''] 0, n_jobs = 2, estimators_attr = Some ?ests\<rparr>"
  let ?G = "\<lambda>j r. [toy_coef (?ests ! j) + sum_list r]"
  have h1: "shape X22 = [2, 1, 2]" by (simp add: X22_def)
  have h2: "estimators_attr ?self = Some ?ests" by simp
  have h3: "length ?ests = 2" by simp
  have m: "check_method toy_api (base_estimator ?self) ''predict'' = ''predict''"
    by (simp add: check_method_def)
  have h4: "\<forall>j<2. row_independent toy_api (?ests ! j)
                (check_method toy_api (base_estimator ?self) ''predict'') (?G j) [] ((\<lambda>j. DFloat) j)"
    unfolding m
  proof (intro allI impI)
    fix j :: nat assume "j < 2"
    then have "j = 0 \<or> j = 1" by auto
    then show "row_independent toy_api (?ests ! j) ''predict'' (?G j) [] DFloat"
      using toy_predict_row_independent [of 5] toy_predict_row_independent [of 7] by auto
  qed
  have h5: "0 < parallel_func toy_api (n_jobs ?self)" by (simp add: parallel_func_def)
  have h6: "parallel_func toy_api (n_jobs ?self) \<le> 2" by (simp add: parallel_func_def)
  have v: "SearchLight_transform_aux toy_api ?self X22 ''predict''
       = Inr \<lparr>shape = [2, 2], dtype = DFloat, data = [6, 9, 8, 11]\<rparr>"
    by code_simp
  have upd: "?self\<lparr>n_jobs := 1\<rparr>
      = \<lparr>base_estimator = Toy [''predict''] 0, n_jobs = 1, estimators_attr = Some ?ests\<rparr>"
    by simp
  have e: "SearchLight_transform_aux toy_api ?self X22 ''predict''
      = SearchLight_transform_aux toy_api
          \<lparr>base_estimator = Toy [''predict''] 0, n_jobs = 1, estimators_attr = Some ?ests\<rparr> X22 ''predict''"
    using SearchLight_apply_independent_of_n_jobs [OF h1 h2 h3 h4 h5 h6]
    unfolding upd by (rule conjunct2)
  have p5: "0 < parallel_func toy_api 2" using h5 by simp
  have p6: "parallel_func toy_api 2 \<le> 2" using h6 by simp
  show ?thesis
    by (intro conjI h1 h2 h3 p5 p6 v e)
qed

end
